theory Spec2Isabelle
  imports Main "HOL-Library.AList"
begin

section \<open>JavaScript objects\<close>

text \<open>
  An optional key of an object is absent, or present with a value or with \<open>undefined\<close>
  (\<open>Key None\<close>). Reading it gives \<open>undefined\<close> in the first and the last case; a spread
  copies every present key, also one that holds \<open>undefined\<close>.
\<close>

datatype 'a key = Absent | Key "'a option"

fun read :: "'a key \<Rightarrow> 'a option" where
  "read Absent = None"
| "read (Key v) = v"

text \<open>\<open>{ ...old, ...new }\<close> on one key.\<close>

fun spread_key :: "'a key \<Rightarrow> 'a key \<Rightarrow> 'a key" where
  "spread_key old Absent = old"
| "spread_key old (Key v) = Key v"

text \<open>
  A plain object used as a dictionary (the memento's \<open>auth.profiles\<close>, the
  enumeration of the credential providers) is the list of its own entries, one per key,
  in the order of insertion. \<open>obj[k]\<close> finds an own entry, else a member that every
  plain object inherits from \<open>Object.prototype\<close>, which is not \<open>undefined\<close>, else
  \<open>undefined\<close>.
\<close>

datatype 'a member = Undefined | Own 'a | Inherited

definition objectPrototypeKeys :: "string list" where
  "objectPrototypeKeys =
     [''constructor'', ''__defineGetter__'', ''__defineSetter__'', ''hasOwnProperty'',
      ''__lookupGetter__'', ''__lookupSetter__'', ''isPrototypeOf'', ''propertyIsEnumerable'',
      ''toString'', ''valueOf'', ''__proto__'', ''toLocaleString'']"

definition property :: "(string \<times> 'a) list \<Rightarrow> string \<Rightarrow> 'a member" where
  "property obj k =
     (case map_of obj k of
        Some v \<Rightarrow> Own v
      | None \<Rightarrow> if k \<in> set objectPrototypeKeys then Inherited else Undefined)"

text \<open>
  \<open>Object.entries\<close> and \<open>Object.keys\<close> enumerate the own keys that are array indices
  (canonical decimal strings below \<open>2^32 - 1\<close>) first, in ascending numeric order, and
  then the other keys in the order of insertion.
\<close>

definition arrayIndex :: "string \<Rightarrow> nat option" where
  "arrayIndex s =
     (let n = foldl (\<lambda>n c. 10 * n + (of_char c - 48)) 0 s
      in if s \<noteq> [] \<and> list_all (\<lambda>c. 48 \<le> (of_char c :: nat) \<and> (of_char c :: nat) \<le> 57) s
            \<and> (s = ''0'' \<or> take 1 s \<noteq> ''0'') \<and> n < 2 ^ 32 - 1
         then Some n else None)"

definition entries :: "(string \<times> 'a) list \<Rightarrow> (string \<times> 'a) list" where
  "entries obj =
     sort_key (\<lambda>e. case arrayIndex (fst e) of None \<Rightarrow> 0 | Some n \<Rightarrow> n)
       (filter (\<lambda>e. arrayIndex (fst e) \<noteq> None) obj)
     @ filter (\<lambda>e. arrayIndex (fst e) = None) obj"

section \<open>Connection model\<close>

text \<open>
  The profile shapes of the connection module. \<open>Profile\<close> is the union
  \<open>IamProfile | SsoProfile\<close>, discriminated by \<open>type\<close> and, for \<open>iam\<close>, by
  \<open>subtype\<close>. \<open>scopes\<close>, \<open>label\<close> and \<open>source\<close> are optional keys.
\<close>

record SsoProfile =
  ssoRegion :: string
  startUrl :: string
  scopes :: "string list key"

datatype Profile =
    Sso SsoProfile
  | LinkedIamProfile (name: string) (ssoSession: string) (ssoRoleName: string) (ssoAccountId: string)
  | UnknownIamProfile (name: string)

fun profile_type :: "Profile \<Rightarrow> string" where
  "profile_type (Sso _) = ''sso''"
| "profile_type (LinkedIamProfile _ _ _ _) = ''iam''"
| "profile_type (UnknownIamProfile _) = ''iam''"

datatype connectionState = valid | invalid | unauthenticated | authenticating

datatype profile_source = amazonq | toolkit

record ProfileMetadata =
  label :: "string key"
  connectionState :: connectionState
  source :: "profile_source key"

record StoredProfile =
  profile :: Profile
  metadata :: ProfileMetadata

text \<open>
  The errors thrown: the two of the module, and the \<open>TypeError\<close> of the runtime on
  reading a property of \<open>undefined\<close>.
\<close>

datatype error =
    ProfileNotFoundError string
  | Error string
  | TypeError

subsection \<open>Scope predicates\<close>

definition scopesSsoAccountAccess :: "string list" where
  "scopesSsoAccountAccess = [''sso:account:access'']"

text \<open>
  The target of \<open>hasScopes\<close> and \<open>hasExactScopes\<close> is an \<open>SsoConnection\<close>, an
  \<open>SsoProfile\<close> or a plain array of scopes. A connection extends \<open>SsoProfile\<close> and
  only its \<open>scopes\<close> are read, so it is given by its profile part.
\<close>

datatype scopes_target = OfProfile SsoProfile | OfArray "string list"

text \<open>\<open>Array.isArray(target) ? target : target.scopes\<close>\<close>

fun target_scopes :: "scopes_target \<Rightarrow> string list option" where
  "target_scopes (OfArray xs) = Some xs"
| "target_scopes (OfProfile p) = read (scopes p)"

text \<open>
  \<open>scopes.every((s) => (...)?.includes(s))\<close>: on an absent scope list the optional
  call gives \<open>undefined\<close>, which \<open>every\<close> reads as false.
\<close>

definition hasScopes :: "scopes_target \<Rightarrow> string list \<Rightarrow> bool" where
  "hasScopes target ss =
     list_all (\<lambda>s. case target_scopes target of None \<Rightarrow> False | Some ts \<Rightarrow> s \<in> set ts) ss"

definition hasExactScopes :: "scopes_target \<Rightarrow> string list \<Rightarrow> bool" where
  "hasExactScopes target ss =
     (let targetScopes = (case target_scopes target of None \<Rightarrow> [] | Some ts \<Rightarrow> ts)
      in length ss = length targetScopes \<and> list_all (\<lambda>s. s \<in> set targetScopes) ss)"

section \<open>Profile store\<close>

text \<open>
  The events that \<open>getProfileOrThrow\<close> hands to \<open>auth_modifyConnection.emit\<close>. The
  \<open>source\<close> field of an event is the stringified call stack and is left out. The
  spans that \<open>addProfile\<close>, \<open>updateProfile\<close> and \<open>deleteProfile\<close> open with
  \<open>auth_modifyConnection.run\<close> are emitted by the telemetry library, which these
  sources do not contain; of the spans only the errors thrown while their fields are
  computed are part of the model.
\<close>

datatype telemetry_result = Succeeded | Failed

record AuthModifyConnection =
  action :: string
  event_id :: string
  result :: telemetry_result
  reason :: "error option"
  event_connectionState :: "connectionState option"
  authScopes :: "string option"
  credentialStartUrl :: "string option"
  awsRegion :: "string option"

text \<open>\<open>Array.prototype.join\<close>\<close>

fun join :: "string \<Rightarrow> string list \<Rightarrow> string" where
  "join sep [] = []"
| "join sep [x] = x"
| "join sep (x # y # ys) = x @ sep @ join sep (y # ys)"

text \<open>
  \<open>getTelemetryForProfile\<close> on a stored profile, merged into the event \<open>ev\<close> as
  the spread \<open>{ ...metadata, ...getTelemetryForProfile(profile) }\<close> does. On
  \<open>undefined\<close> it gives \<open>{}\<close>; on a value without \<open>metadata\<close> it throws the
  \<open>TypeError\<close>; both are written out where the function is called.
\<close>

definition getTelemetryForProfile :: "StoredProfile \<Rightarrow> AuthModifyConnection \<Rightarrow> AuthModifyConnection" where
  "getTelemetryForProfile p ev =
     (let ev1 = ev\<lparr>event_connectionState := Some (connectionState (metadata p))\<rparr>
      in case profile p of
           Sso sp \<Rightarrow> ev1\<lparr>authScopes := map_option (join '','') (read (scopes sp)),
                         credentialStartUrl := Some (startUrl sp),
                         awsRegion := Some (ssoRegion sp)\<rparr>
         | _ \<Rightarrow> ev1)"

text \<open>
  A \<open>ProfileStore\<close> instance with the state it reads and writes: the two keys of the
  memento (\<open>auth.profiles\<close>, \<open>auth.currentProfileId\<close>), the private
  \<open>_prevGetProfile\<close>, and the events sent to the telemetry sink so far.
\<close>

record ProfileStore =
  profiles :: "(string \<times> StoredProfile) list"
  currentProfileId :: "string option"
  prevGetProfile :: "(string \<times> connectionState) option"
  emitted :: "AuthModifyConnection list"

definition getData :: "ProfileStore \<Rightarrow> (string \<times> StoredProfile) list" where
  "getData st = profiles st"

definition updateData :: "(string \<times> StoredProfile) list \<Rightarrow> ProfileStore \<Rightarrow> ProfileStore" where
  "updateData d st = st\<lparr>profiles := d\<rparr>"

text \<open>
  \<open>this.getData()[id]\<close>: typed \<open>StoredProfile | undefined\<close>, but an id that names a
  member of \<open>Object.prototype\<close> and is not stored reads that member.
\<close>

definition getProfile :: "ProfileStore \<Rightarrow> string \<Rightarrow> StoredProfile member" where
  "getProfile st i = property (getData st) i"

definition listProfiles :: "ProfileStore \<Rightarrow> (string \<times> StoredProfile) list" where
  "listProfiles st = entries (getData st)"

definition getCurrentProfileId :: "ProfileStore \<Rightarrow> string option" where
  "getCurrentProfileId st = currentProfileId st"

definition setCurrentProfileId :: "string option \<Rightarrow> ProfileStore \<Rightarrow> ProfileStore" where
  "setCurrentProfileId i st = st\<lparr>currentProfileId := i\<rparr>"

text \<open>
  \<open>{ ...this.getData(), [id]: profile }\<close> replaces in place or appends; the computed
  key is an own property whatever the id.
\<close>

definition putProfile :: "string \<Rightarrow> StoredProfile \<Rightarrow> ProfileStore \<Rightarrow> StoredProfile \<times> ProfileStore" where
  "putProfile i p st = (p, updateData (AList.update i p (getData st)) st)"

definition initMetadata :: "Profile \<Rightarrow> StoredProfile" where
  "initMetadata p =
     \<lparr>profile = p, metadata = \<lparr>label = Absent, connectionState = unauthenticated, source = Absent\<rparr>\<rparr>"

text \<open>
  In \<open>getProfileOrThrow\<close> only \<open>undefined\<close> takes the \<open>ProfileNotFoundError\<close> branch
  and its \<open>Failed\<close> event. An inherited member passes the test and has no \<open>metadata\<close>:
  the guard of the de-duplication, or else \<open>getTelemetryForProfile\<close>, reads
  \<open>connectionState\<close> of \<open>undefined\<close>, outside the \<open>try\<close> and before anything is
  emitted or recorded.
\<close>

definition getProfileOrThrow :: "string \<Rightarrow> ProfileStore \<Rightarrow> (error + StoredProfile) \<times> ProfileStore" where
  "getProfileOrThrow i st =
     (let ev = \<lparr>action = ''getProfile'', event_id = i, result = Succeeded, reason = None,
                event_connectionState = None, authScopes = None, credentialStartUrl = None,
                awsRegion = None\<rparr>
      in case getProfile st i of
           Undefined \<Rightarrow>
             (Inl (ProfileNotFoundError i),
              st\<lparr>emitted := emitted st @
                    [ev\<lparr>result := Failed, reason := Some (ProfileNotFoundError i)\<rparr>]\<rparr>)
         | Inherited \<Rightarrow> (Inl TypeError, st)
         | Own p \<Rightarrow>
             (Inr p,
              if (case prevGetProfile st of
                    None \<Rightarrow> True
                  | Some (pid, pcs) \<Rightarrow> pid \<noteq> i \<or> pcs \<noteq> connectionState (metadata p))
              then st\<lparr>emitted := emitted st @ [getTelemetryForProfile p ev],
                      prevGetProfile := Some (i, connectionState (metadata p))\<rparr>
              else st))"

definition addProfile :: "string \<Rightarrow> Profile \<Rightarrow> ProfileStore \<Rightarrow> StoredProfile \<times> ProfileStore" where
  "addProfile i p st = (let newProfile = initMetadata p in putProfile i newProfile st)"

text \<open>
  The spread \<open>{ ...oldProfile, ...profile }\<close> of \<open>updateProfile\<close>, reached only when
  both have the same \<open>type\<close>. Every key of the new profile overrides; an absent
  \<open>scopes\<close> keeps the old one; \<open>metadata\<close> is not a key of a \<open>Profile\<close> and stays.
  When an \<open>unknown\<close> profile is spread over a \<open>linked\<close> one, the object keeps the
  three \<open>sso*\<close> keys next to \<open>subtype: 'unknown'\<close>; every reader goes by the
  subtype, so the result is the unknown profile.
\<close>

fun spread :: "Profile \<Rightarrow> Profile \<Rightarrow> Profile" where
  "spread (Sso old) (Sso new) = Sso (new\<lparr>scopes := spread_key (scopes old) (scopes new)\<rparr>)"
| "spread old new = new"

definition updateProfile :: "string \<Rightarrow> Profile \<Rightarrow> ProfileStore \<Rightarrow> (error + StoredProfile) \<times> ProfileStore" where
  "updateProfile i p st =
     (case getProfileOrThrow i st of
        (Inl e, st1) \<Rightarrow> (Inl e, st1)
      | (Inr oldProfile, st1) \<Rightarrow>
          if profile_type (profile oldProfile) \<noteq> profile_type p
          then (Inl (Error (''Cannot change profile type from \"'' @ profile_type (profile oldProfile)
                            @ ''\" to \"'' @ profile_type p @ ''\"'')), st1)
          else (case putProfile i (oldProfile\<lparr>profile := spread (profile oldProfile) p\<rparr>) st1 of
                  (newProfile, st2) \<Rightarrow> (Inr newProfile, st2)))"

text \<open>
  \<open>{ ...profile.metadata, ...metadata }\<close>: \<open>connectionState\<close> is a required key of
  the argument and always overrides; \<open>label\<close> and \<open>source\<close> override when present.
\<close>

definition mergeMetadata :: "ProfileMetadata \<Rightarrow> ProfileMetadata \<Rightarrow> ProfileMetadata" where
  "mergeMetadata old new =
     \<lparr>label = spread_key (label old) (label new),
      connectionState = connectionState new,
      source = spread_key (source old) (source new)\<rparr>"

definition updateMetadata :: "string \<Rightarrow> ProfileMetadata \<Rightarrow> ProfileStore \<Rightarrow> (error + StoredProfile) \<times> ProfileStore" where
  "updateMetadata i m st =
     (case getProfileOrThrow i st of
        (Inl e, st1) \<Rightarrow> (Inl e, st1)
      | (Inr p, st1) \<Rightarrow>
          (case putProfile i (p\<lparr>metadata := mergeMetadata (metadata p) m\<rparr>) st1 of
             (newProfile, st2) \<Rightarrow> (Inr newProfile, st2)))"

text \<open>
  \<open>deleteProfile\<close> records \<open>getTelemetryForProfile(data[id])\<close> before it deletes: on
  an id that reads an inherited member this throws, and nothing is deleted or written.
  \<open>None\<close> is the normal return.
\<close>

definition deleteProfile :: "string \<Rightarrow> ProfileStore \<Rightarrow> error option \<times> ProfileStore" where
  "deleteProfile i st =
     (case property (getData st) i of
        Inherited \<Rightarrow> (Some TypeError, st)
      | _ \<Rightarrow> (None, updateData (AList.delete i (getData st)) st))"

section \<open>Reconciler\<close>

subsection \<open>Unmanaged-profile sync\<close>

text \<open>
  Modelled from the spec: the \<open>CredentialsProviderManager\<close> and \<open>fromString\<close> are not
  among these sources. The spec gives the collaborator as
  \<open>getCredentialProviderNames() -> mapping id -> descriptor{credentialTypeId}\<close> and
  \<open>removeProvider(id)\<close>: the registration is a mapping from the identifier to the
  \<open>credentialTypeId\<close> of its descriptor, a plain object like the profile mapping,
  and \<open>removeProvider\<close> takes the identifier out of it. \<open>fromString(id)\<close> is read
  as naming the provider registered under \<open>id\<close>.
\<close>

record CredentialsProviderManager =
  registered :: "(string \<times> string) list"

definition getCredentialProviderNames :: "CredentialsProviderManager \<Rightarrow> (string \<times> string) list" where
  "getCredentialProviderNames manager = registered manager"

definition removeProvider :: "string \<Rightarrow> CredentialsProviderManager \<Rightarrow> CredentialsProviderManager" where
  "removeProvider i manager = manager\<lparr>registered := AList.delete i (registered manager)\<rparr>"

text \<open>\<open>String.prototype.startsWith\<close>\<close>

definition startsWith :: "string \<Rightarrow> string \<Rightarrow> bool" where
  "startsWith s p = (take (length p) s = p)"

text \<open>
  The first loop of \<open>loadIamProfilesIntoStore\<close>, over the entries that
  \<open>store.listProfiles()\<close> returned before the loop started; the store and the manager
  are read and written as they are at each iteration. A source that is an inherited
  member has no \<open>type\<close>, so it is not \<open>'sso'\<close>. An exception of \<open>deleteProfile\<close>
  ends the function with the state as it is.
\<close>

fun removeStale ::
  "(string \<times> string) list \<Rightarrow> (string \<times> StoredProfile) list \<Rightarrow>
   ProfileStore \<times> CredentialsProviderManager \<Rightarrow>
   error option \<times> ProfileStore \<times> CredentialsProviderManager" where
  "removeStale providers [] (st, manager) = (None, st, manager)"
| "removeStale providers ((i, p) # rest) (st, manager) =
     (case profile p of
        Sso _ \<Rightarrow> removeStale providers rest (st, manager)
      | LinkedIamProfile _ session _ _ \<Rightarrow>
          if (case getProfile st session of
                Undefined \<Rightarrow> True
              | Inherited \<Rightarrow> True
              | Own src \<Rightarrow> profile_type (profile src) \<noteq> ''sso'')
          then (case deleteProfile i st of
                  (Some e, st1) \<Rightarrow> (Some e, st1, manager)
                | (None, st1) \<Rightarrow> removeStale providers rest (st1, removeProvider i manager))
          else removeStale providers rest (st, manager)
      | UnknownIamProfile _ \<Rightarrow>
          if property providers i = Undefined
          then (case deleteProfile i st of
                  (Some e, st1) \<Rightarrow> (Some e, st1, manager)
                | (None, st1) \<Rightarrow> removeStale providers rest (st1, manager))
          else removeStale providers rest (st, manager))"

text \<open>
  The second loop, over \<open>Object.keys(providers)\<close>; each key comes with the
  \<open>credentialTypeId\<close> that \<open>providers[id]\<close> holds.
\<close>

fun addUnknown :: "(string \<times> string) list \<Rightarrow> ProfileStore \<Rightarrow> ProfileStore" where
  "addUnknown [] st = st"
| "addUnknown ((i, credentialTypeId) # rest) st =
     (if getProfile st i = Undefined \<and> \<not> startsWith i ''sso:''
      then addUnknown rest (snd (addProfile i (UnknownIamProfile credentialTypeId) st))
      else addUnknown rest st)"

definition loadIamProfilesIntoStore ::
  "ProfileStore \<Rightarrow> CredentialsProviderManager \<Rightarrow>
   error option \<times> ProfileStore \<times> CredentialsProviderManager" where
  "loadIamProfilesIntoStore st manager =
     (let providers = getCredentialProviderNames manager
      in case removeStale providers (listProfiles st) (st, manager) of
           (Some e, st1, manager1) \<Rightarrow> (Some e, st1, manager1)
         | (None, st1, manager1) \<Rightarrow> (None, addUnknown (entries providers) st1, manager1))"

subsection \<open>Linked-profile discovery\<close>

text \<open>
  Modelled from the spec: the federation client (\<open>SsoClient\<close>) and its lazy collections
  are not among these sources. The spec gives \<open>listAccounts()\<close> as a finite sequence of
  \<open>{ accountId }\<close> and \<open>listAccountRoles({accountId})\<close> as a finite sequence of
  \<open>{ roleName, accountId }\<close>, both flat to the core. A listing either fails with a
  message (\<open>Inl\<close>) or gives its items. An account is given by its \<open>accountId\<close>.
\<close>

record RoleInfo =
  roleName :: string
  accountId :: string

record SsoClient =
  listAccounts :: "string + string list"
  listAccountRoles :: "string \<Rightarrow> string + RoleInfo list"

text \<open>
  What the function writes outside the store: the logger's entries (level, format,
  arguments), the arguments of the last warning and the messages shown to the user.
\<close>

record Host =
  logged :: "(string \<times> string \<times> string list) list"
  lastWarned :: "(string \<times> string) option"
  shown :: "(string \<times> string) list"

text \<open>
  Modelled from the spec: \<open>onceChanged\<close> and \<open>showMessageWithUrl\<close> are not among these
  sources. The spec keys the de-duplication of the warning by the rendered message, and
  the source's comment on \<open>warnOnce\<close> reads "Shows a warning message unless it is the same
  as the last one shown": \<open>lastWarned\<close> holds the arguments of the last call.
\<close>

definition warnOnce :: "string \<Rightarrow> string \<Rightarrow> Host \<Rightarrow> Host" where
  "warnOnce s url h =
     (if lastWarned h = Some (s, url) then h
      else h\<lparr>lastWarned := Some (s, url), shown := shown h @ [(s, url)]\<rparr>)"

definition log_entry :: "string \<Rightarrow> string \<Rightarrow> string list \<Rightarrow> Host \<Rightarrow> Host" where
  "log_entry level format args h = h\<lparr>logged := logged h @ [(level, format, args)]\<rparr>"

text \<open>\<open>Set.prototype.add\<close> on a set kept in insertion order.\<close>

definition set_add :: "'a \<Rightarrow> 'a list \<Rightarrow> 'a list" where
  "set_add x xs = (if x \<in> set xs then xs else xs @ [x])"

definition linkedName :: "RoleInfo \<Rightarrow> string" where
  "linkedName info = roleName info @ ''-'' @ accountId info"

definition linkedId :: "string \<Rightarrow> RoleInfo \<Rightarrow> string" where
  "linkedId sourceId info = ''sso:'' @ sourceId @ ''#'' @ linkedName info"

text \<open>
  The local state of the generator while it is suspended: the two sets, the rest of
  the role listing being flattened, and the accounts not yet pulled from the stream.
\<close>

record frame =
  accounts :: "string list"
  found :: "string list"
  roles :: "RoleInfo list"
  pending :: "string list"

datatype loop_exit =
    AtYield "string \<times> StoredProfile" frame ProfileStore
  | Exhausted frame ProfileStore
  | Raised error ProfileStore

text \<open>
  The \<open>for await\<close> loop from the current position of the stream up to the next
  \<open>yield\<close>, the end of the stream, or a listing of roles that fails (nothing catches
  it, so the generator throws).
\<close>

fun forAwait ::
  "SsoClient \<Rightarrow> string \<Rightarrow> string list \<Rightarrow> string list \<Rightarrow> RoleInfo list \<Rightarrow> string list \<Rightarrow>
   ProfileStore \<Rightarrow> loop_exit" where
  "forAwait client sourceId accs fnd (info # rest) pend st =
     (let i = linkedId sourceId info;
          fnd1 = set_add i fnd
      in if getProfile st i \<noteq> Undefined
         then forAwait client sourceId accs fnd1 rest pend st
         else (case addProfile i (LinkedIamProfile (linkedName info) sourceId
                                    (roleName info) (accountId info)) st of
                 (p, st1) \<Rightarrow>
                   AtYield (i, p) \<lparr>accounts = accs, found = fnd1, roles = rest, pending = pend\<rparr> st1))"
| "forAwait client sourceId accs fnd [] (a # pend) st =
     (case listAccountRoles client a of
        Inl e \<Rightarrow> Raised (Error e) st
      | Inr rs \<Rightarrow> forAwait client sourceId (set_add a accs) fnd rs pend st)"
| "forAwait client sourceId accs fnd [] [] st =
     Exhausted \<lparr>accounts = accs, found = fnd, roles = [], pending = []\<rparr> st"

text \<open>
  The zero-result diagnostic. \<open>truncateStartUrl\<close> is not among these sources and is a
  parameter.
\<close>

definition zeroResultDiagnostic ::
  "(string \<Rightarrow> string) \<Rightarrow> SsoProfile \<Rightarrow> string list \<Rightarrow> string list \<Rightarrow> Host \<Rightarrow> Host" where
  "zeroResultDiagnostic truncateStartUrl ssoProfile accs fnd h =
     (let otherScopes = (case read (scopes ssoProfile) of
                           None \<Rightarrow> False
                         | Some ss \<Rightarrow> list_ex (\<lambda>s. s \<notin> set scopesSsoAccountAccess) ss)
      in if \<not> otherScopes \<and> (length accs = 0 \<or> length fnd = 0)
         then
           (let n = truncateStartUrl (startUrl ssoProfile);
                h1 = (if length accs = 0
                      then log_entry ''warn'' ''auth: SSO org (%s) returned no accounts'' [n] h
                      else if length fnd = 0
                      then log_entry ''warn'' ''auth: SSO org (%s) returned no roles for account: %s''
                             [n, join '','' accs] h
                      else h)
            in warnOnce
                 (''IAM Identity Center ('' @ n @
                  '') returned no roles. Ensure the user is assigned to an account with a Permission Set.'')
                 ''https://docs.aws.amazon.com/singlesignon/latest/userguide/getting-started.html''
                 h1)
         else h)"

text \<open>
  The clean-up loop, over the entries that \<open>store.listProfiles()\<close> returned. An
  exception of \<open>deleteProfile\<close> ends it with the store as it is.
\<close>

fun cleanup ::
  "string \<Rightarrow> string list \<Rightarrow> (string \<times> StoredProfile) list \<Rightarrow> ProfileStore \<Rightarrow>
   error option \<times> ProfileStore" where
  "cleanup sourceId fnd [] st = (None, st)"
| "cleanup sourceId fnd ((i, p) # rest) st =
     (case profile p of
        LinkedIamProfile _ session _ _ \<Rightarrow>
          if session = sourceId \<and> i \<notin> set fnd
          then (case deleteProfile i st of
                  (Some e, st1) \<Rightarrow> (Some e, st1)
                | (None, st1) \<Rightarrow> cleanup sourceId fnd rest st1)
          else cleanup sourceId fnd rest st
      | _ \<Rightarrow> cleanup sourceId fnd rest st)"

text \<open>
  The generator object that \<open>loadLinkedProfilesIntoStore\<close> returns: not started,
  suspended at the \<open>yield\<close>, or completed. \<open>next\<close> runs it to its next \<open>yield\<close>, to its
  return or to its throw. A failure of \<open>listAccounts\<close> is logged and read as no accounts.
\<close>

datatype generator = Start | Suspended frame | Completed

datatype iterator_result = Value "string \<times> StoredProfile" | Done | Thrown error

definition resume ::
  "(string \<Rightarrow> string) \<Rightarrow> SsoClient \<Rightarrow> string \<Rightarrow> SsoProfile \<Rightarrow> frame \<Rightarrow> ProfileStore \<times> Host \<Rightarrow>
   iterator_result \<times> generator \<times> ProfileStore \<times> Host" where
  "resume truncateStartUrl client sourceId ssoProfile f sh =
     (case sh of (st, h) \<Rightarrow>
        (case forAwait client sourceId (accounts f) (found f) (roles f) (pending f) st of
           AtYield v f1 st1 \<Rightarrow> (Value v, Suspended f1, st1, h)
         | Raised e st1 \<Rightarrow> (Thrown e, Completed, st1, h)
         | Exhausted f1 st1 \<Rightarrow>
             (let h1 = zeroResultDiagnostic truncateStartUrl ssoProfile (accounts f1) (found f1) h
              in case cleanup sourceId (found f1) (listProfiles st1) st1 of
                   (None, st2) \<Rightarrow> (Done, Completed, st2, h1)
                 | (Some e, st2) \<Rightarrow> (Thrown e, Completed, st2, h1))))"

definition next_result ::
  "(string \<Rightarrow> string) \<Rightarrow> SsoClient \<Rightarrow> string \<Rightarrow> SsoProfile \<Rightarrow> generator \<Rightarrow> ProfileStore \<times> Host \<Rightarrow>
   iterator_result \<times> generator \<times> ProfileStore \<times> Host" where
  "next_result truncateStartUrl client sourceId ssoProfile g sh =
     (case g of
        Completed \<Rightarrow> (Done, Completed, sh)
      | Suspended f \<Rightarrow> resume truncateStartUrl client sourceId ssoProfile f sh
      | Start \<Rightarrow>
          (case listAccounts client of
             Inl e \<Rightarrow>
               resume truncateStartUrl client sourceId ssoProfile
                 \<lparr>accounts = [], found = [], roles = [], pending = []\<rparr>
                 (fst sh, log_entry ''error'' ''listAccounts() failed: %s'' [e] (snd sh))
           | Inr as \<Rightarrow>
               resume truncateStartUrl client sourceId ssoProfile
                 \<lparr>accounts = [], found = [], roles = [], pending = as\<rparr> sh))"

text \<open>
  A consumer that asks for at most \<open>n\<close> items. It ends with the generator drained
  (\<open>next\<close> returned done), with the generator's exception, or, having taken \<open>n\<close>
  items, by abandoning the generator where it is suspended.
\<close>

datatype run_end = Drained | Threw error | Abandoned generator

fun consume ::
  "nat \<Rightarrow> (string \<Rightarrow> string) \<Rightarrow> SsoClient \<Rightarrow> string \<Rightarrow> SsoProfile \<Rightarrow> generator \<Rightarrow>
   ProfileStore \<times> Host \<Rightarrow> (string \<times> StoredProfile) list \<times> run_end \<times> ProfileStore \<times> Host" where
  "consume 0 truncateStartUrl client sourceId ssoProfile g (st, h) = ([], Abandoned g, st, h)"
| "consume (Suc n) truncateStartUrl client sourceId ssoProfile g (st, h) =
     (case next_result truncateStartUrl client sourceId ssoProfile g (st, h) of
        (Value v, g1, st1, h1) \<Rightarrow>
          (case consume n truncateStartUrl client sourceId ssoProfile g1 (st1, h1) of
             (vs, e, st2, h2) \<Rightarrow> (v # vs, e, st2, h2))
      | (Done, g1, st1, h1) \<Rightarrow> ([], Drained, st1, h1)
      | (Thrown e, g1, st1, h1) \<Rightarrow> ([], Threw e, st1, h1))"

text \<open>The items of the catalog in the order of the flattened stream, and the accounts.\<close>

definition accountsOf :: "SsoClient \<Rightarrow> string list" where
  "accountsOf client = (case listAccounts client of Inl e \<Rightarrow> [] | Inr as \<Rightarrow> as)"

definition rolesOf :: "SsoClient \<Rightarrow> string \<Rightarrow> RoleInfo list" where
  "rolesOf client a = (case listAccountRoles client a of Inl e \<Rightarrow> [] | Inr rs \<Rightarrow> rs)"

definition catalog :: "SsoClient \<Rightarrow> RoleInfo list" where
  "catalog client = concat (map (rolesOf client) (accountsOf client))"

subsection \<open>Predicates of the statements\<close>




text \<open>
  The discovery loop as a fold over the items of the stream, to state what a run has
  done when it ends: the store after the items (an item whose id is stored is skipped),
  the entries it yields, and the two sets after the items.
\<close>

fun addLinked :: "string \<Rightarrow> RoleInfo list \<Rightarrow> ProfileStore \<Rightarrow> ProfileStore" where
  "addLinked sourceId [] st = st"
| "addLinked sourceId (info # rest) st =
     (if getProfile st (linkedId sourceId info) \<noteq> Undefined then addLinked sourceId rest st
      else addLinked sourceId rest
             (snd (addProfile (linkedId sourceId info)
                     (LinkedIamProfile (linkedName info) sourceId (roleName info) (accountId info)) st)))"

fun newLinked :: "string \<Rightarrow> RoleInfo list \<Rightarrow> ProfileStore \<Rightarrow> (string \<times> StoredProfile) list" where
  "newLinked sourceId [] st = []"
| "newLinked sourceId (info # rest) st =
     (if getProfile st (linkedId sourceId info) \<noteq> Undefined then newLinked sourceId rest st
      else (linkedId sourceId info,
            initMetadata (LinkedIamProfile (linkedName info) sourceId (roleName info) (accountId info)))
           # newLinked sourceId rest
               (snd (addProfile (linkedId sourceId info)
                       (LinkedIamProfile (linkedName info) sourceId (roleName info) (accountId info)) st)))"

definition set_adds :: "'a list \<Rightarrow> 'a list \<Rightarrow> 'a list" where
  "set_adds xs acc = foldl (\<lambda>ys x. set_add x ys) acc xs"

text \<open>The items still to come from a position of the stream, and no listing failing.\<close>

definition remaining :: "SsoClient \<Rightarrow> RoleInfo list \<Rightarrow> string list \<Rightarrow> RoleInfo list" where
  "remaining client rest pend = rest @ concat (map (rolesOf client) pend)"

definition listed :: "SsoClient \<Rightarrow> string list \<Rightarrow> bool" where
  "listed client pend = list_all (\<lambda>a. case listAccountRoles client a of Inl e \<Rightarrow> False | Inr rs \<Rightarrow> True) pend"

text \<open>The entries that the clean-up loop deletes.\<close>

definition staleLinked :: "string \<Rightarrow> string list \<Rightarrow> string \<times> StoredProfile \<Rightarrow> bool" where
  "staleLinked sourceId fnd e =
     (case profile (snd e) of
        LinkedIamProfile _ session _ _ \<Rightarrow> session = sourceId \<and> fst e \<notin> set fnd
      | _ \<Rightarrow> False)"

text \<open>
  The scopes of the profile hold nothing beyond \<open>sso:account:access\<close>, and the warning
  that the zero-result diagnostic shows.
\<close>

definition onlyAccountAccess :: "SsoProfile \<Rightarrow> bool" where
  "onlyAccountAccess ssoProfile =
     list_all (\<lambda>s. s \<in> set scopesSsoAccountAccess)
       (case read (scopes ssoProfile) of None \<Rightarrow> [] | Some ss \<Rightarrow> ss)"

definition noRolesWarning :: "string \<Rightarrow> string \<times> string" where
  "noRolesWarning n =
     (''IAM Identity Center ('' @ n @
      '') returned no roles. Ensure the user is assigned to an account with a Permission Set.'',
      ''https://docs.aws.amazon.com/singlesignon/latest/userguide/getting-started.html'')"

text \<open>The condition of the zero-result diagnostic, on the profile and the catalog.\<close>

definition zeroResult :: "SsoProfile \<Rightarrow> SsoClient \<Rightarrow> bool" where
  "zeroResult ssoProfile client =
     (onlyAccountAccess ssoProfile \<and> (accountsOf client = [] \<or> catalog client = []))"

subsection \<open>Counting audit events\<close>

definition succeededEvents :: "ProfileStore \<Rightarrow> nat" where
  "succeededEvents st = length (filter (\<lambda>ev. result ev = Succeeded) (emitted st))"

subsection \<open>Example states\<close>

definition exampleStore :: ProfileStore where
  "exampleStore =
     \<lparr>profiles = [(''sso:1'', \<lparr>profile = Sso \<lparr>ssoRegion = ''us-east-1'', startUrl = ''https://x'', scopes = Absent\<rparr>,
                              metadata = \<lparr>label = Key (Some ''x''), connectionState = valid,
                                          source = Key (Some toolkit)\<rparr>\<rparr>)],
      currentProfileId = None, prevGetProfile = None, emitted = []\<rparr>"

definition emptyStore :: ProfileStore where
  "emptyStore = \<lparr>profiles = [], currentProfileId = None, prevGetProfile = None, emitted = []\<rparr>"





text \<open>
  A catalog of one account with one role; a store that holds the session \<open>sso:1\<close> and
  a linked profile of that session for a role the catalog no longer lists; a host that
  has logged and shown nothing.
\<close>

definition catalogClient :: SsoClient where
  "catalogClient =
     \<lparr>listAccounts = Inr [''111''],
      listAccountRoles = (\<lambda>a. if a = ''111'' then Inr [\<lparr>roleName = ''Admin'', accountId = ''111''\<rparr>]
                               else Inr [])\<rparr>"

definition exampleSso :: SsoProfile where
  "exampleSso = \<lparr>ssoRegion = ''us-east-1'', startUrl = ''https://x'', scopes = Absent\<rparr>"

definition staleStore :: ProfileStore where
  "staleStore =
     \<lparr>profiles =
        [(''sso:1'', initMetadata (Sso exampleSso)),
         (''sso:sso:1#Old-111'', initMetadata (LinkedIamProfile ''Old-111'' ''sso:1'' ''Old'' ''111''))],
      currentProfileId = None, prevGetProfile = None, emitted = []\<rparr>"

definition quietHost :: Host where
  "quietHost = \<lparr>logged = [], lastWarned = None, shown = []\<rparr>"

text \<open>
  A catalog without accounts, and the host after a drained discovery over it for a
  profile, on the empty store.
\<close>

definition noAccountsClient :: SsoClient where
  "noAccountsClient = \<lparr>listAccounts = Inr [], listAccountRoles = (\<lambda>a. Inr [])\<rparr>"

definition zeroRun :: "string \<Rightarrow> Host \<Rightarrow> Host" where
  "zeroRun url h =
     snd (snd (snd (consume (Suc 0) (\<lambda>u. u) noAccountsClient ''sso:1''
                      \<lparr>ssoRegion = ''us-east-1'', startUrl = url, scopes = Absent\<rparr> Start (emptyStore, h))))"

section \<open>Properties of the profile store\<close>

lemma property_Own: "(property obj k = Own v) = (map_of obj k = Some v)"
  by (simp add: property_def split: option.splits)


lemma property_Inherited:
  "(property obj k = Inherited) = (map_of obj k = None \<and> k \<in> set objectPrototypeKeys)"
  by (simp add: property_def split: option.splits)

lemma property_update:
  "property (AList.update i v obj) k = (if k = i then Own v else property obj k)"
  by (simp add: property_def update_conv')

lemma property_delete:
  "property (AList.delete i obj) k = (if k = i then property [] i else property obj k)"
  by (simp add: property_def delete_conv')

lemma getProfile_Own: "(getProfile st i = Own p) = (map_of (profiles st) i = Some p)"
  by (simp add: getProfile_def getData_def property_Own)

lemma getProfile_putProfile:
  "getProfile (snd (putProfile i p st)) k = (if k = i then Own p else getProfile st k)"
  by (simp add: getProfile_def putProfile_def updateData_def getData_def property_update)

lemma getProfile_addProfile:
  "getProfile (snd (addProfile i p st)) k = (if k = i then Own (initMetadata p) else getProfile st k)"
  by (simp add: addProfile_def getProfile_putProfile)

lemma fst_addProfile: "fst (addProfile i p st) = initMetadata p"
  by (simp add: addProfile_def putProfile_def Let_def)

text \<open>
  C3. For every id, profile \<open>p\<close> and store, \<open>getProfile(id)\<close> after \<open>addProfile(id, p)\<close>
  gives \<open>p\<close> with the metadata \<open>{connectionState: unauthenticated}\<close> and nothing else;
  it is also what \<open>addProfile\<close> returns.
\<close>

theorem addProfile_then_getProfile:
  "getProfile (snd (addProfile i p st)) i =
     Own \<lparr>profile = p, metadata = \<lparr>label = Absent, connectionState = unauthenticated, source = Absent\<rparr>\<rparr>
   \<and> fst (addProfile i p st) =
     \<lparr>profile = p, metadata = \<lparr>label = Absent, connectionState = unauthenticated, source = Absent\<rparr>\<rparr>"
  by (simp add: getProfile_addProfile fst_addProfile initMetadata_def)

theorem addProfile_then_getProfile_witness:
  "getProfile (snd (addProfile ''constructor''
      (Sso \<lparr>ssoRegion = ''us-east-1'', startUrl = ''https://x'', scopes = Absent\<rparr>) emptyStore))
      ''constructor'' =
     Own \<lparr>profile = Sso \<lparr>ssoRegion = ''us-east-1'', startUrl = ''https://x'', scopes = Absent\<rparr>,
          metadata = \<lparr>label = Absent, connectionState = unauthenticated, source = Absent\<rparr>\<rparr>"
  using addProfile_then_getProfile [of "''constructor''"
      "Sso \<lparr>ssoRegion = ''us-east-1'', startUrl = ''https://x'', scopes = Absent\<rparr>" emptyStore]
  by simp

lemma getProfileOrThrow_fst:
  "fst (getProfileOrThrow i st) =
     (case getProfile st i of
        Undefined \<Rightarrow> Inl (ProfileNotFoundError i)
      | Own p \<Rightarrow> Inr p
      | Inherited \<Rightarrow> Inl TypeError)"
  by (simp add: getProfileOrThrow_def Let_def split: member.splits)

lemma getProfileOrThrow_profiles:
  "profiles (snd (getProfileOrThrow i st)) = profiles st"
  by (simp add: getProfileOrThrow_def Let_def split: member.splits)

lemma getProfileOrThrow_currentProfileId:
  "currentProfileId (snd (getProfileOrThrow i st)) = currentProfileId st"
  by (simp add: getProfileOrThrow_def Let_def split: member.splits)

text \<open>
  C4. When a profile is stored under the id and the new profile has another \<open>type\<close>,
  \<open>updateProfile\<close> fails with the error that names both types, and the stored mapping,
  the record under the id and the current-profile pointer are as before.
\<close>

theorem updateProfile_type_mismatch:
  assumes "getProfile st i = Own old"
    and "profile_type (profile old) \<noteq> profile_type p"
  shows "fst (updateProfile i p st) =
           Inl (Error (''Cannot change profile type from \"'' @ profile_type (profile old)
                       @ ''\" to \"'' @ profile_type p @ ''\"''))
         \<and> profiles (snd (updateProfile i p st)) = profiles st
         \<and> getProfile (snd (updateProfile i p st)) i = Own old
         \<and> currentProfileId (snd (updateProfile i p st)) = currentProfileId st"
proof -
  obtain r st1 where g: "getProfileOrThrow i st = (r, st1)"
    by (cases "getProfileOrThrow i st")
  from g assms(1) have r: "r = Inr old"
    using getProfileOrThrow_fst [of i st] by simp
  from g have p1: "profiles st1 = profiles st"
    using getProfileOrThrow_profiles [of i st] by simp
  from g have c1: "currentProfileId st1 = currentProfileId st"
    using getProfileOrThrow_currentProfileId [of i st] by simp
  have u: "updateProfile i p st =
      (Inl (Error (''Cannot change profile type from \"'' @ profile_type (profile old)
                       @ ''\" to \"'' @ profile_type p @ ''\"'')), st1)"
    using g r assms(2) by (simp add: updateProfile_def)
  have "getProfile st1 i = Own old"
    using assms(1) p1 by (simp add: getProfile_def getData_def)
  with u p1 c1 show ?thesis by simp
qed

theorem updateProfile_type_mismatch_witness:
  "fst (updateProfile ''sso:1'' (UnknownIamProfile ''profile'') exampleStore) =
     Inl (Error ''Cannot change profile type from \"sso\" to \"iam\"'')
   \<and> profiles (snd (updateProfile ''sso:1'' (UnknownIamProfile ''profile'') exampleStore)) = profiles exampleStore"
proof -
  have g: "getProfile exampleStore ''sso:1'' =
      Own \<lparr>profile = Sso \<lparr>ssoRegion = ''us-east-1'', startUrl = ''https://x'', scopes = Absent\<rparr>,
           metadata = \<lparr>label = Key (Some ''x''), connectionState = valid, source = Key (Some toolkit)\<rparr>\<rparr>"
    by (simp add: exampleStore_def getProfile_def getData_def property_def)
  show ?thesis
    using updateProfile_type_mismatch [OF g, of "UnknownIamProfile ''profile''"] by simp
qed

lemma fst_updateMetadata:
  "fst (updateMetadata i m st) =
     (case getProfile st i of
        Undefined \<Rightarrow> Inl (ProfileNotFoundError i)
      | Own p \<Rightarrow> Inr (p\<lparr>metadata := mergeMetadata (metadata p) m\<rparr>)
      | Inherited \<Rightarrow> Inl TypeError)"
proof (cases "getProfileOrThrow i st")
  case (Pair r st1)
  then have "r = (case getProfile st i of
        Undefined \<Rightarrow> Inl (ProfileNotFoundError i) | Own p \<Rightarrow> Inr p | Inherited \<Rightarrow> Inl TypeError)"
    using getProfileOrThrow_fst [of i st] by simp
  with Pair show ?thesis
    by (simp add: updateMetadata_def putProfile_def split: member.splits)
qed

text \<open>
  For an id that does not name a member of \<open>Object.prototype\<close>, both operations fail
  with \<open>ProfileNotFoundError\<close> exactly when nothing is stored under it, and succeed
  otherwise.
\<close>

lemma profile_not_found_own_keys:
  assumes "i \<notin> set objectPrototypeKeys"
  shows "((fst (getProfileOrThrow i st) = Inl (ProfileNotFoundError i)) = (map_of (profiles st) i = None))
   \<and> ((fst (updateMetadata i m st) = Inl (ProfileNotFoundError i)) = (map_of (profiles st) i = None))
   \<and> fst (getProfileOrThrow i st) =
       (case map_of (profiles st) i of None \<Rightarrow> Inl (ProfileNotFoundError i) | Some p \<Rightarrow> Inr p)
   \<and> fst (updateMetadata i m st) =
       (case map_of (profiles st) i of
          None \<Rightarrow> Inl (ProfileNotFoundError i)
        | Some p \<Rightarrow> Inr (p\<lparr>metadata := mergeMetadata (metadata p) m\<rparr>))"
  using assms
  by (cases "map_of (profiles st) i")
     (simp_all add: getProfileOrThrow_fst fst_updateMetadata getProfile_def getData_def property_def)

text \<open>
  C5 fails in the code at an id that names a member of \<open>Object.prototype\<close>. Nothing is
  stored in the empty store, and \<open>getProfile('constructor')\<close> is the inherited member
  all the same: \<open>getProfileOrThrow\<close> and \<open>updateMetadata\<close> throw a \<open>TypeError\<close>, not
  \<open>ProfileNotFoundError\<close>, and no \<open>Failed\<close> event is emitted.
\<close>

theorem getProfileOrThrow_inherited_key:
  "profiles emptyStore = []
   \<and> getProfile emptyStore ''constructor'' = Inherited
   \<and> getProfileOrThrow ''constructor'' emptyStore = (Inl TypeError, emptyStore)
   \<and> updateMetadata ''constructor'' \<lparr>label = Absent, connectionState = valid, source = Absent\<rparr> emptyStore
       = (Inl TypeError, emptyStore)
   \<and> emitted (snd (getProfileOrThrow ''constructor'' emptyStore)) = []"
proof -
  have g: "getProfile emptyStore ''constructor'' = Inherited"
    by (simp add: emptyStore_def getProfile_def getData_def property_def objectPrototypeKeys_def)
  have t: "getProfileOrThrow ''constructor'' emptyStore = (Inl TypeError, emptyStore)"
    by (simp add: getProfileOrThrow_def g Let_def)
  have u: "updateMetadata ''constructor'' \<lparr>label = Absent, connectionState = valid, source = Absent\<rparr> emptyStore
       = (Inl TypeError, emptyStore)"
    by (simp add: updateMetadata_def t)
  show ?thesis using g t u by (simp add: emptyStore_def)
qed

theorem getProfileOrThrow_inherited_key_witness:
  "fst (getProfileOrThrow ''constructor'' emptyStore) \<noteq> Inl (ProfileNotFoundError ''constructor'')"
  using getProfileOrThrow_inherited_key by simp

text \<open>
  C7. \<open>hasExactScopes\<close> holds exactly when the two scope lists have the same length and
  every required scope is in the target's scopes; \<open>hasScopes\<close> holds exactly when every
  required scope is in the target's scopes (an absent scope list has none); and the three
  examples of the specification.
\<close>

theorem scopes_predicates:
  "hasExactScopes target ss =
     (length ss = length (case target_scopes target of None \<Rightarrow> [] | Some ts \<Rightarrow> ts)
      \<and> (\<forall>s \<in> set ss. s \<in> set (case target_scopes target of None \<Rightarrow> [] | Some ts \<Rightarrow> ts)))
   \<and> hasScopes target ss =
     (\<forall>s \<in> set ss. s \<in> set (case target_scopes target of None \<Rightarrow> [] | Some ts \<Rightarrow> ts))
   \<and> hasExactScopes (OfArray [''a'', ''b'']) [''b'', ''a'']
   \<and> \<not> hasExactScopes (OfArray [''a'', ''b'']) [''a'']
   \<and> hasScopes (OfArray [''a'', ''b'', ''c'']) [''a'', ''c'']"
  by (cases "target_scopes target") (simp_all add: hasExactScopes_def hasScopes_def list_all_iff)

theorem scopes_predicates_witness:
  "hasExactScopes (OfProfile \<lparr>ssoRegion = ''us-east-1'', startUrl = ''https://x'',
                               scopes = Key (Some [''sso:account:access'', ''codecatalyst:read_write''])\<rparr>)
     [''codecatalyst:read_write'', ''sso:account:access'']
   \<and> \<not> hasExactScopes (OfProfile \<lparr>ssoRegion = ''us-east-1'', startUrl = ''https://x'', scopes = Absent\<rparr>)
         [''sso:account:access'']
   \<and> hasScopes (OfProfile \<lparr>ssoRegion = ''us-east-1'', startUrl = ''https://x'', scopes = Absent\<rparr>) []"
  using scopes_predicates [of "OfProfile \<lparr>ssoRegion = ''us-east-1'', startUrl = ''https://x'',
                               scopes = Key (Some [''sso:account:access'', ''codecatalyst:read_write''])\<rparr>"
      "[''codecatalyst:read_write'', ''sso:account:access'']"]
    scopes_predicates [of "OfProfile \<lparr>ssoRegion = ''us-east-1'', startUrl = ''https://x'', scopes = Absent\<rparr>"
      "[''sso:account:access'']"]
    scopes_predicates [of "OfProfile \<lparr>ssoRegion = ''us-east-1'', startUrl = ''https://x'', scopes = Absent\<rparr>" "[]"]
  by simp

lemma keys_addProfile:
  "map fst (profiles (snd (addProfile i p st))) =
     (if i \<in> set (map fst (profiles st)) then map fst (profiles st) else map fst (profiles st) @ [i])"
  by (simp add: addProfile_def putProfile_def updateData_def getData_def Let_def update_keys)

text \<open>
  C10. \<open>addProfile\<close> on an id that is already stored does not fail: the record under the
  id is replaced by \<open>p\<close> with fresh metadata, whatever the old metadata were; the other
  records and the keys of the mapping stay.
\<close>

theorem addProfile_replaces_existing:
  assumes "getProfile st i = Own old"
  shows "fst (addProfile i p st) =
           \<lparr>profile = p, metadata = \<lparr>label = Absent, connectionState = unauthenticated, source = Absent\<rparr>\<rparr>
         \<and> getProfile (snd (addProfile i p st)) i =
           Own \<lparr>profile = p, metadata = \<lparr>label = Absent, connectionState = unauthenticated, source = Absent\<rparr>\<rparr>
         \<and> (\<forall>k. k \<noteq> i \<longrightarrow> getProfile (snd (addProfile i p st)) k = getProfile st k)
         \<and> map fst (profiles (snd (addProfile i p st))) = map fst (profiles st)"
proof -
  from assms have "i \<in> set (map fst (profiles st))"
    by (auto simp: getProfile_Own dest: map_of_SomeD intro: rev_image_eqI)
  then show ?thesis
    by (simp add: keys_addProfile getProfile_addProfile fst_addProfile initMetadata_def)
qed

theorem addProfile_replaces_existing_witness:
  "getProfile exampleStore ''sso:1'' =
      Own \<lparr>profile = Sso \<lparr>ssoRegion = ''us-east-1'', startUrl = ''https://x'', scopes = Absent\<rparr>,
           metadata = \<lparr>label = Key (Some ''x''), connectionState = valid, source = Key (Some toolkit)\<rparr>\<rparr>
   \<and> getProfile (snd (addProfile ''sso:1'' (UnknownIamProfile ''profile'') exampleStore)) ''sso:1'' =
      Own \<lparr>profile = UnknownIamProfile ''profile'',
           metadata = \<lparr>label = Absent, connectionState = unauthenticated, source = Absent\<rparr>\<rparr>
   \<and> map fst (profiles (snd (addProfile ''sso:1'' (UnknownIamProfile ''profile'') exampleStore))) = [''sso:1'']"
proof -
  have b: "getProfile exampleStore ''sso:1'' =
      Own \<lparr>profile = Sso \<lparr>ssoRegion = ''us-east-1'', startUrl = ''https://x'', scopes = Absent\<rparr>,
           metadata = \<lparr>label = Key (Some ''x''), connectionState = valid, source = Key (Some toolkit)\<rparr>\<rparr>"
    by (simp add: exampleStore_def getProfile_def getData_def property_def)
  have k: "map fst (profiles exampleStore) = [''sso:1'']"
    by (simp add: exampleStore_def)
  show ?thesis
    using addProfile_replaces_existing [OF b, of "UnknownIamProfile ''profile''"] b k by simp
qed

subsection \<open>Audit de-duplication\<close>

lemma result_getTelemetryForProfile: "result (getTelemetryForProfile p ev) = result ev"
  by (simp add: getTelemetryForProfile_def Let_def split: Profile.splits)

lemma getProfileOrThrow_hit:
  assumes "getProfile st i = Own p"
  shows "snd (getProfileOrThrow i st) =
           (if prevGetProfile st = Some (i, connectionState (metadata p)) then st
            else st\<lparr>emitted := emitted st @
                       [getTelemetryForProfile p
                          \<lparr>action = ''getProfile'', event_id = i, result = Succeeded, reason = None,
                           event_connectionState = None, authScopes = None,
                           credentialStartUrl = None, awsRegion = None\<rparr>],
                     prevGetProfile := Some (i, connectionState (metadata p))\<rparr>)"
  using assms by (auto simp: getProfileOrThrow_def Let_def split: option.splits)

lemma succeededEvents_hit:
  assumes "getProfile st i = Own p"
  shows "succeededEvents (snd (getProfileOrThrow i st)) =
           succeededEvents st + (if prevGetProfile st = Some (i, connectionState (metadata p)) then 0 else 1)"
  by (simp add: getProfileOrThrow_hit [OF assms] succeededEvents_def result_getTelemetryForProfile)

lemma prevGetProfile_hit:
  assumes "getProfile st i = Own p"
  shows "prevGetProfile (snd (getProfileOrThrow i st)) = Some (i, connectionState (metadata p))"
  by (simp add: getProfileOrThrow_hit [OF assms])

lemma getProfile_after_getProfileOrThrow:
  "getProfile (snd (getProfileOrThrow i st)) k = getProfile st k"
  by (simp add: getProfile_def getData_def getProfileOrThrow_profiles)

text \<open>
  C6, amended. With a profile stored under the id, two calls of \<open>getProfileOrThrow(id)\<close> in
  succession emit one \<open>Succeeded\<close> event when the pair recorded at the last emission
  differs from (id, connectionState) before the first call, as on a fresh store, and none
  when it is that pair already; the second call emits nothing and changes nothing, and
  both calls return the stored profile.
\<close>

theorem getProfileOrThrow_twice:
  assumes "getProfile st i = Own p"
  shows "succeededEvents (snd (getProfileOrThrow i (snd (getProfileOrThrow i st)))) =
           succeededEvents st + (if prevGetProfile st = Some (i, connectionState (metadata p)) then 0 else 1)
         \<and> snd (getProfileOrThrow i (snd (getProfileOrThrow i st))) = snd (getProfileOrThrow i st)
         \<and> fst (getProfileOrThrow i (snd (getProfileOrThrow i st))) = Inr p
         \<and> fst (getProfileOrThrow i st) = Inr p"
proof -
  let ?s1 = "snd (getProfileOrThrow i st)"
  have g1: "getProfile ?s1 i = Own p"
    using assms by (simp add: getProfile_after_getProfileOrThrow)
  have p1: "prevGetProfile ?s1 = Some (i, connectionState (metadata p))"
    by (rule prevGetProfile_hit [OF assms])
  have same: "snd (getProfileOrThrow i ?s1) = ?s1"
    using getProfileOrThrow_hit [OF g1] p1 by simp
  have r1: "fst (getProfileOrThrow i st) = Inr p"
    using assms by (simp add: getProfileOrThrow_fst)
  have r2: "fst (getProfileOrThrow i ?s1) = Inr p"
    using g1 by (simp add: getProfileOrThrow_fst)
  show ?thesis
    using same r1 r2 succeededEvents_hit [OF assms] by simp
qed

theorem getProfileOrThrow_twice_witness:
  "succeededEvents (snd (getProfileOrThrow ''sso:1'' (snd (getProfileOrThrow ''sso:1'' exampleStore)))) = 1"
proof -
  have b: "getProfile exampleStore ''sso:1'' =
      Own \<lparr>profile = Sso \<lparr>ssoRegion = ''us-east-1'', startUrl = ''https://x'', scopes = Absent\<rparr>,
           metadata = \<lparr>label = Key (Some ''x''), connectionState = valid, source = Key (Some toolkit)\<rparr>\<rparr>"
    by (simp add: exampleStore_def getProfile_def getData_def property_def)
  have p: "prevGetProfile exampleStore = None" and e: "succeededEvents exampleStore = 0"
    by (simp_all add: exampleStore_def succeededEvents_def)
  show ?thesis
    using getProfileOrThrow_twice [OF b, THEN conjunct1] p e by simp
qed

text \<open>
  After one call on the example store the pair is recorded: the next two calls in
  succession emit no \<open>Succeeded\<close> event, not one.
\<close>

theorem getProfileOrThrow_twice_counterexample:
  "getProfile (snd (getProfileOrThrow ''sso:1'' exampleStore)) ''sso:1'' =
      Own \<lparr>profile = Sso \<lparr>ssoRegion = ''us-east-1'', startUrl = ''https://x'', scopes = Absent\<rparr>,
           metadata = \<lparr>label = Key (Some ''x''), connectionState = valid, source = Key (Some toolkit)\<rparr>\<rparr>
   \<and> succeededEvents (snd (getProfileOrThrow ''sso:1'' (snd (getProfileOrThrow ''sso:1''
        (snd (getProfileOrThrow ''sso:1'' exampleStore))))))
     = succeededEvents (snd (getProfileOrThrow ''sso:1'' exampleStore))"
  by (simp add: exampleStore_def getProfileOrThrow_def getProfile_def getData_def Let_def
      getTelemetryForProfile_def succeededEvents_def property_def)

subsection \<open>Enumeration order\<close>

lemma set_entries: "set (entries obj) = set obj"
  by (auto simp: entries_def)

lemma distinct_entries:
  assumes "distinct (map fst obj)"
  shows "distinct (map fst (entries obj))"
proof -
  have d: "distinct obj" and inj: "inj_on fst (set obj)"
    using assms by (simp_all add: distinct_map)
  have "distinct (entries obj)"
    using d by (auto simp: entries_def)
  moreover have "inj_on fst (set (entries obj))"
    using inj by (simp add: set_entries)
  ultimately show ?thesis by (simp add: distinct_map)
qed


subsection \<open>Unmanaged-profile sync\<close>

lemma deleteProfile_own:
  assumes "map_of (profiles st) i = Some p"
  shows "deleteProfile i st = (None, st\<lparr>profiles := AList.delete i (profiles st)\<rparr>)"
  using assms by (simp add: deleteProfile_def property_def getData_def updateData_def)








lemma stale_keys:
  assumes "distinct (map fst obj)"
  shows "k \<in> set (map fst (filter P (entries obj))) = (\<exists>p. map_of obj k = Some p \<and> P (k, p))"
  using assms by (auto simp: image_iff set_entries)




text \<open>
  An enumerated \<open>constructor\<close> is not added to the empty store: the store's lookup
  reads the inherited member, not \<open>undefined\<close>.
\<close>

lemma loadIamProfilesIntoStore_inherited_key:
  "loadIamProfilesIntoStore emptyStore \<lparr>registered = [(''constructor'', ''profile'')]\<rparr> =
     (None, emptyStore, \<lparr>registered = [(''constructor'', ''profile'')]\<rparr>)"
  by (simp add: emptyStore_def loadIamProfilesIntoStore_def
      getCredentialProviderNames_def listProfiles_def getData_def entries_def arrayIndex_def
      getProfile_def property_def objectPrototypeKeys_def Let_def)

section \<open>Properties of the discovery\<close>

subsection \<open>Sets in insertion order\<close>

lemma set_set_add: "set (set_add x xs) = insert x (set xs)"
  by (auto simp: set_add_def)

lemma set_adds_Nil: "set_adds [] acc = acc"
  by (simp add: set_adds_def)

lemma set_adds_Cons: "set_adds (x # xs) acc = set_adds xs (set_add x acc)"
  by (simp add: set_adds_def)

lemma set_set_adds: "set (set_adds xs acc) = set xs \<union> set acc"
  by (induction xs arbitrary: acc) (auto simp: set_adds_Nil set_adds_Cons set_set_add)

lemma set_adds_eq_Nil: "(set_adds xs [] = []) = (xs = [])"
proof -
  have "(set (set_adds xs []) = {}) = (xs = [])" by (simp add: set_set_adds)
  then show ?thesis by simp
qed

subsection \<open>The ids of linked profiles\<close>

lemma linkedId_not_inherited: "linkedId sourceId info \<notin> set objectPrototypeKeys"
  by (simp add: linkedId_def objectPrototypeKeys_def)

lemma getProfile_linkedId:
  "(getProfile st (linkedId sourceId info) \<noteq> Undefined) =
     (map_of (profiles st) (linkedId sourceId info) \<noteq> None)"
  using linkedId_not_inherited [of sourceId info]
  by (simp add: getProfile_def getData_def property_def split: option.splits)

lemma map_of_addProfile:
  "map_of (profiles (snd (addProfile i p st))) k =
     (if k = i then Some (initMetadata p) else map_of (profiles st) k)"
  by (simp add: addProfile_def putProfile_def updateData_def getData_def Let_def update_conv')

subsection \<open>The loop as a fold\<close>

lemma addLinked_mono:
  "map_of (profiles st) k = Some p \<Longrightarrow> map_of (profiles (addLinked sourceId infos st)) k = Some p"
proof (induction infos arbitrary: st)
  case Nil
  then show ?case by simp
next
  case (Cons info infos)
  show ?case
  proof (cases "getProfile st (linkedId sourceId info) \<noteq> Undefined")
    case True
    then show ?thesis using Cons by simp
  next
    case False
    then have "map_of (profiles st) (linkedId sourceId info) = None"
      using getProfile_linkedId [of st sourceId info] by simp
    then have "k \<noteq> linkedId sourceId info" using Cons.prems by auto
    then have "map_of (profiles (snd (addProfile (linkedId sourceId info)
        (LinkedIamProfile (linkedName info) sourceId (roleName info) (accountId info)) st))) k = Some p"
      using Cons.prems by (simp add: map_of_addProfile)
    then show ?thesis using False Cons.IH by simp
  qed
qed

lemma addLinked_present:
  "info \<in> set infos \<Longrightarrow> map_of (profiles (addLinked sourceId infos st)) (linkedId sourceId info) \<noteq> None"
proof (induction infos arbitrary: st)
  case Nil
  then show ?case by simp
next
  case (Cons x infos)
  let ?st1 = "snd (addProfile (linkedId sourceId x)
        (LinkedIamProfile (linkedName x) sourceId (roleName x) (accountId x)) st)"
  show ?case
  proof (cases "info = x")
    case True
    show ?thesis
    proof (cases "getProfile st (linkedId sourceId x) \<noteq> Undefined")
      case True
      then obtain p where "map_of (profiles st) (linkedId sourceId x) = Some p"
        using getProfile_linkedId [of st sourceId x] by auto
      then show ?thesis
        using addLinked_mono [of st "linkedId sourceId x" p sourceId infos] True \<open>info = x\<close>
        by simp
    next
      case False
      have "map_of (profiles ?st1) (linkedId sourceId x) =
          Some (initMetadata (LinkedIamProfile (linkedName x) sourceId (roleName x) (accountId x)))"
        by (simp add: map_of_addProfile)
      then show ?thesis
        using addLinked_mono [of ?st1 "linkedId sourceId x" _ sourceId infos] False \<open>info = x\<close>
        by simp
    qed
  next
    case False
    then have "info \<in> set infos" using Cons.prems by simp
    then show ?thesis using Cons.IH by simp
  qed
qed

lemma addLinked_distinct:
  "distinct (map fst (profiles st)) \<Longrightarrow> distinct (map fst (profiles (addLinked sourceId infos st)))"
proof (induction infos arbitrary: st)
  case Nil
  then show ?case by simp
next
  case (Cons x infos)
  have "distinct (map fst (profiles (snd (addProfile (linkedId sourceId x)
        (LinkedIamProfile (linkedName x) sourceId (roleName x) (accountId x)) st))))"
    using Cons.prems by (simp add: keys_addProfile)
  then show ?case using Cons by simp
qed

lemma newLinked_entry:
  "(i, p) \<in> set (newLinked sourceId infos st) \<Longrightarrow>
     map_of (profiles st) i = None \<and>
     (\<exists>info \<in> set infos. i = linkedId sourceId info \<and>
        p = initMetadata (LinkedIamProfile (linkedName info) sourceId (roleName info) (accountId info)))"
proof (induction infos arbitrary: st)
  case Nil
  then show ?case by simp
next
  case (Cons x infos)
  let ?st1 = "snd (addProfile (linkedId sourceId x)
        (LinkedIamProfile (linkedName x) sourceId (roleName x) (accountId x)) st)"
  show ?case
  proof (cases "getProfile st (linkedId sourceId x) \<noteq> Undefined")
    case True
    then have "(i, p) \<in> set (newLinked sourceId infos st)" using Cons.prems by simp
    then show ?thesis using Cons.IH [of st] by auto
  next
    case False
    then have none: "map_of (profiles st) (linkedId sourceId x) = None"
      using getProfile_linkedId [of st sourceId x] by simp
    have "(i, p) = (linkedId sourceId x,
          initMetadata (LinkedIamProfile (linkedName x) sourceId (roleName x) (accountId x)))
        \<or> (i, p) \<in> set (newLinked sourceId infos ?st1)"
      using Cons.prems False by simp
    then show ?thesis
    proof
      assume "(i, p) = (linkedId sourceId x,
          initMetadata (LinkedIamProfile (linkedName x) sourceId (roleName x) (accountId x)))"
      then show ?thesis using none by simp
    next
      assume "(i, p) \<in> set (newLinked sourceId infos ?st1)"
      then have ih: "map_of (profiles ?st1) i = None \<and>
         (\<exists>info \<in> set infos. i = linkedId sourceId info \<and>
            p = initMetadata (LinkedIamProfile (linkedName info) sourceId (roleName info) (accountId info)))"
        by (rule Cons.IH)
      then have "map_of (profiles st) i = None"
        by (simp add: map_of_addProfile split: if_splits)
      then show ?thesis using ih by auto
    qed
  qed
qed

lemma newLinked_distinct: "distinct (map fst (newLinked sourceId infos st))"
proof (induction infos arbitrary: st)
  case Nil
  show ?case by simp
next
  case (Cons x infos)
  let ?st1 = "snd (addProfile (linkedId sourceId x)
        (LinkedIamProfile (linkedName x) sourceId (roleName x) (accountId x)) st)"
  have "linkedId sourceId x \<notin> fst ` set (newLinked sourceId infos ?st1)"
  proof
    assume "linkedId sourceId x \<in> fst ` set (newLinked sourceId infos ?st1)"
    then obtain p where "(linkedId sourceId x, p) \<in> set (newLinked sourceId infos ?st1)" by auto
    then have "map_of (profiles ?st1) (linkedId sourceId x) = None"
      using newLinked_entry by blast
    then show False by (simp add: map_of_addProfile)
  qed
  then show ?case using Cons.IH by simp
qed

subsection \<open>The exits of the loop\<close>

lemma remaining_Cons: "remaining client (info # rest) pend = info # remaining client rest pend"
  by (simp add: remaining_def)

lemma remaining_account:
  "listAccountRoles client a = Inr rs \<Longrightarrow> remaining client [] (a # pend) = remaining client rs pend"
  by (simp add: remaining_def rolesOf_def)

lemma listed_Cons:
  "listed client (a # pend) =
     ((case listAccountRoles client a of Inl e \<Rightarrow> False | Inr rs \<Rightarrow> True) \<and> listed client pend)"
  by (simp add: listed_def)

lemma forAwait_skip:
  "getProfile st (linkedId sourceId info) \<noteq> Undefined \<Longrightarrow>
     forAwait client sourceId accs fnd (info # rest) pend st =
       forAwait client sourceId accs (set_add (linkedId sourceId info) fnd) rest pend st"
  by (simp add: Let_def)

lemma forAwait_add:
  "getProfile st (linkedId sourceId info) = Undefined \<Longrightarrow>
     forAwait client sourceId accs fnd (info # rest) pend st =
       AtYield (linkedId sourceId info,
                initMetadata (LinkedIamProfile (linkedName info) sourceId (roleName info) (accountId info)))
         \<lparr>accounts = accs, found = set_add (linkedId sourceId info) fnd, roles = rest, pending = pend\<rparr>
         (snd (addProfile (linkedId sourceId info)
                 (LinkedIamProfile (linkedName info) sourceId (roleName info) (accountId info)) st))"
  by (simp add: Let_def addProfile_def putProfile_def split: prod.splits)

lemma forAwait_Exhausted:
  assumes "forAwait client sourceId accs fnd rest pend st = Exhausted f1 st1"
  shows "st1 = st
       \<and> accounts f1 = set_adds pend accs
       \<and> found f1 = set_adds (map (linkedId sourceId) (remaining client rest pend)) fnd
       \<and> listed client pend
       \<and> newLinked sourceId (remaining client rest pend) st = []
       \<and> addLinked sourceId (remaining client rest pend) st = st"
  using assms
proof (induction client sourceId accs fnd rest pend st rule: forAwait.induct)
  case (1 client sourceId accs fnd info rest pend st)
  let ?i = "linkedId sourceId info"
  have present: "getProfile st ?i \<noteq> Undefined"
  proof
    assume "getProfile st ?i = Undefined"
    then show False using "1.prems" by (simp add: forAwait_add del: forAwait.simps)
  qed
  then have eq: "forAwait client sourceId accs (set_add ?i fnd) rest pend st = Exhausted f1 st1"
    using "1.prems" by (simp add: forAwait_skip del: forAwait.simps)
  note ih = "1.IH" [OF refl refl present eq]
  show ?case using ih present by (simp add: remaining_Cons set_adds_Cons)
next
  case (2 client sourceId accs fnd a pend st)
  obtain rs where rs: "listAccountRoles client a = Inr rs"
    using "2.prems" by (cases "listAccountRoles client a") auto
  then have eq: "forAwait client sourceId (set_add a accs) fnd rs pend st = Exhausted f1 st1"
    using "2.prems" by simp
  note ih = "2.IH" [OF rs eq]
  show ?case using ih rs by (simp add: remaining_account listed_Cons set_adds_Cons)
next
  case (3 client sourceId accs fnd st)
  then show ?case by (auto simp: remaining_def listed_def set_adds_Nil)
qed

lemma forAwait_AtYield:
  assumes "forAwait client sourceId accs fnd rest pend st = AtYield v f1 st1"
  shows "newLinked sourceId (remaining client rest pend) st =
           v # newLinked sourceId (remaining client (roles f1) (pending f1)) st1
       \<and> addLinked sourceId (remaining client rest pend) st =
           addLinked sourceId (remaining client (roles f1) (pending f1)) st1
       \<and> set_adds (map (linkedId sourceId) (remaining client (roles f1) (pending f1))) (found f1) =
           set_adds (map (linkedId sourceId) (remaining client rest pend)) fnd
       \<and> set_adds (pending f1) (accounts f1) = set_adds pend accs
       \<and> length (remaining client (roles f1) (pending f1)) < length (remaining client rest pend)
       \<and> listed client (pending f1) = listed client pend
       \<and> (\<exists>i p. map_of (profiles st) i = None \<and> st1 = snd (addProfile i p st))"
  using assms
proof (induction client sourceId accs fnd rest pend st rule: forAwait.induct)
  case (1 client sourceId accs fnd info rest pend st)
  let ?i = "linkedId sourceId info"
  show ?case
  proof (cases "getProfile st ?i \<noteq> Undefined")
    case True
    then have eq: "forAwait client sourceId accs (set_add ?i fnd) rest pend st = AtYield v f1 st1"
      using "1.prems" by (simp add: forAwait_skip del: forAwait.simps)
    note ih = "1.IH" [OF refl refl True eq]
    show ?thesis using ih True by (simp add: remaining_Cons set_adds_Cons)
  next
    case False
    then have u: "getProfile st ?i = Undefined" by simp
    then have none: "map_of (profiles st) ?i = None"
      using getProfile_linkedId [of st sourceId info] by simp
    have y: "v = (?i, initMetadata (LinkedIamProfile (linkedName info) sourceId (roleName info) (accountId info)))"
      "f1 = \<lparr>accounts = accs, found = set_add ?i fnd, roles = rest, pending = pend\<rparr>"
      "st1 = snd (addProfile ?i
                 (LinkedIamProfile (linkedName info) sourceId (roleName info) (accountId info)) st)"
      using "1.prems" by (simp_all add: forAwait_add [OF u] del: forAwait.simps)
    show ?thesis
      using none u by (auto simp: y remaining_Cons set_adds_Cons)
  qed
next
  case (2 client sourceId accs fnd a pend st)
  obtain rs where rs: "listAccountRoles client a = Inr rs"
    using "2.prems" by (cases "listAccountRoles client a") auto
  then have eq: "forAwait client sourceId (set_add a accs) fnd rs pend st = AtYield v f1 st1"
    using "2.prems" by simp
  note ih = "2.IH" [OF rs eq]
  show ?case using ih rs by (simp add: remaining_account listed_Cons set_adds_Cons)
next
  case (3 client sourceId accs fnd st)
  then show ?case by simp
qed

lemma forAwait_Raised:
  assumes "forAwait client sourceId accs fnd rest pend st = Raised e st1"
  shows "st1 = st \<and> \<not> listed client pend"
  using assms
proof (induction client sourceId accs fnd rest pend st rule: forAwait.induct)
  case (1 client sourceId accs fnd info rest pend st)
  let ?i = "linkedId sourceId info"
  have present: "getProfile st ?i \<noteq> Undefined"
  proof
    assume "getProfile st ?i = Undefined"
    then show False using "1.prems" by (simp add: forAwait_add del: forAwait.simps)
  qed
  then have eq: "forAwait client sourceId accs (set_add ?i fnd) rest pend st = Raised e st1"
    using "1.prems" by (simp add: forAwait_skip del: forAwait.simps)
  show ?case by (rule "1.IH" [OF refl refl present eq])
next
  case (2 client sourceId accs fnd a pend st)
  show ?case
  proof (cases "listAccountRoles client a")
    case (Inl msg)
    then show ?thesis using "2.prems" by (simp add: listed_Cons)
  next
    case (Inr rs)
    then have eq: "forAwait client sourceId (set_add a accs) fnd rs pend st = Raised e st1"
      using "2.prems" by simp
    show ?thesis using "2.IH" [OF Inr eq] Inr by (simp add: listed_Cons)
  qed
next
  case (3 client sourceId accs fnd st)
  then show ?case by simp
qed

lemma forAwait_present:
  assumes "listed client pend"
    and "\<forall>info \<in> set (remaining client rest pend). map_of (profiles st) (linkedId sourceId info) \<noteq> None"
  shows "forAwait client sourceId accs fnd rest pend st =
           Exhausted \<lparr>accounts = set_adds pend accs,
                      found = set_adds (map (linkedId sourceId) (remaining client rest pend)) fnd,
                      roles = [], pending = []\<rparr> st"
  using assms
proof (induction client sourceId accs fnd rest pend st rule: forAwait.induct)
  case (1 client sourceId accs fnd info rest pend st)
  let ?i = "linkedId sourceId info"
  have present: "getProfile st ?i \<noteq> Undefined"
    using "1.prems"(2) getProfile_linkedId [of st sourceId info] by (simp add: remaining_Cons)
  have rest: "\<forall>info \<in> set (remaining client rest pend). map_of (profiles st) (linkedId sourceId info) \<noteq> None"
    using "1.prems"(2) by (simp add: remaining_Cons)
  note ih = "1.IH" [OF refl refl present "1.prems"(1) rest]
  show ?case
    using ih present by (simp add: forAwait_skip remaining_Cons set_adds_Cons del: forAwait.simps)
next
  case (2 client sourceId accs fnd a pend st)
  obtain rs where rs: "listAccountRoles client a = Inr rs"
    using "2.prems"(1) by (cases "listAccountRoles client a") (auto simp: listed_Cons)
  have l: "listed client pend" using "2.prems"(1) by (simp add: listed_Cons)
  have rest: "\<forall>info \<in> set (remaining client rs pend). map_of (profiles st) (linkedId sourceId info) \<noteq> None"
    using "2.prems"(2) by (simp add: remaining_account [OF rs])
  note ih = "2.IH" [OF rs l rest]
  show ?case using ih rs by (simp add: remaining_account set_adds_Cons)
next
  case (3 client sourceId accs fnd st)
  show ?case by (simp add: remaining_def set_adds_Nil)
qed

subsection \<open>The clean-up loop\<close>

lemma staleLinked_iam: "staleLinked sourceId fnd e \<Longrightarrow> fst e \<notin> set fnd"
  by (auto simp: staleLinked_def split: Profile.splits)

lemma cleanup_Cons:
  assumes "map_of (profiles st) i = Some q"
  shows "cleanup sourceId fnd ((i, p) # xs) st =
     (if staleLinked sourceId fnd (i, p)
      then cleanup sourceId fnd xs (st\<lparr>profiles := AList.delete i (profiles st)\<rparr>)
      else cleanup sourceId fnd xs st)"
  by (cases "profile p") (auto simp: staleLinked_def deleteProfile_own [OF assms])

lemma delete_filter_keys:
  "filter (\<lambda>e. fst e \<notin> K) (AList.delete i ps) = filter (\<lambda>e. fst e \<notin> insert i K) ps"
  by (induction ps) (auto simp: AList.delete_eq)

lemma map_of_filter_keys:
  "map_of (filter (\<lambda>e. fst e \<notin> K) ps) k = (if k \<in> K then None else map_of ps k)"
  by (induction ps) auto

lemma cleanup_entries:
  assumes "distinct (map fst xs)"
    and "\<forall>e \<in> set xs. map_of (profiles st) (fst e) = Some (snd e)"
  shows "cleanup sourceId fnd xs st =
           (None, st\<lparr>profiles := filter (\<lambda>e. fst e \<notin> set (map fst (filter (staleLinked sourceId fnd) xs)))
                                     (profiles st)\<rparr>)"
  using assms
proof (induction xs arbitrary: st)
  case Nil
  show ?case by simp
next
  case (Cons e xs)
  obtain i p where e: "e = (i, p)" by (cases e)
  have own: "map_of (profiles st) i = Some p"
    using Cons.prems(2) by (simp add: e)
  have dx: "distinct (map fst xs)" and ni: "i \<notin> fst ` set xs"
    using Cons.prems(1) by (simp_all add: e)
  let ?st1 = "st\<lparr>profiles := AList.delete i (profiles st)\<rparr>"
  have agree1: "\<forall>e \<in> set xs. map_of (profiles ?st1) (fst e) = Some (snd e)"
  proof
    fix x assume x: "x \<in> set xs"
    then have "fst x \<noteq> i" using ni by auto
    then show "map_of (profiles ?st1) (fst x) = Some (snd x)"
      using Cons.prems(2) x by (simp add: delete_conv')
  qed
  have agree: "\<forall>e \<in> set xs. map_of (profiles st) (fst e) = Some (snd e)"
    using Cons.prems(2) by simp
  show ?case
  proof (cases "staleLinked sourceId fnd (i, p)")
    case True
    then show ?thesis
      using Cons.IH [OF dx agree1]
      by (simp add: e cleanup_Cons [OF own] delete_filter_keys del: cleanup.simps)
  next
    case False
    then show ?thesis
      using Cons.IH [OF dx agree]
      by (simp add: e cleanup_Cons [OF own] del: cleanup.simps)
  qed
qed

lemma cleanup_none_stale:
  "\<forall>e \<in> set xs. \<not> staleLinked sourceId fnd e \<Longrightarrow> cleanup sourceId fnd xs st = (None, st)"
proof (induction xs arbitrary: st)
  case Nil
  show ?case by simp
next
  case (Cons e xs)
  obtain i p where e: "e = (i, p)" by (cases e)
  have "\<not> staleLinked sourceId fnd (i, p)" using Cons.prems by (simp add: e)
  then have "cleanup sourceId fnd ((i, p) # xs) st = cleanup sourceId fnd xs st"
    by (cases "profile p") (auto simp: staleLinked_def)
  then show ?case using Cons by (simp add: e del: cleanup.simps)
qed

text \<open>The clean-up of a store with one entry per id, on the entries it lists.\<close>

lemma cleanup_store:
  assumes "distinct (map fst (profiles st))"
  shows "cleanup sourceId fnd (listProfiles st) st =
           (None, st\<lparr>profiles := filter (\<lambda>e. \<not> staleLinked sourceId fnd e) (profiles st)\<rparr>)"
proof -
  let ?K = "set (map fst (filter (staleLinked sourceId fnd) (entries (profiles st))))"
  have agree: "\<forall>e \<in> set (entries (profiles st)). map_of (profiles st) (fst e) = Some (snd e)"
    using assms by (simp add: set_entries)
  have "filter (\<lambda>e. fst e \<notin> ?K) (profiles st) = filter (\<lambda>e. \<not> staleLinked sourceId fnd e) (profiles st)"
  proof (rule filter_cong [OF refl])
    fix e assume m: "e \<in> set (profiles st)"
    have "fst e \<in> ?K \<longleftrightarrow> (\<exists>p. map_of (profiles st) (fst e) = Some p \<and> staleLinked sourceId fnd (fst e, p))"
      by (rule stale_keys [OF assms])
    moreover have "map_of (profiles st) (fst e) = Some (snd e)"
      using assms m by simp
    ultimately show "(fst e \<notin> ?K) = (\<not> staleLinked sourceId fnd e)" by simp
  qed
  then show ?thesis
    using cleanup_entries [OF distinct_entries [OF assms] agree, of sourceId fnd]
    by (simp add: listProfiles_def getData_def)
qed

subsection \<open>Runs of the generator\<close>

lemma consume_Start:
  "consume (Suc n) truncateStartUrl client sourceId ssoProfile Start (st, h) =
     consume (Suc n) truncateStartUrl client sourceId ssoProfile
       (Suspended \<lparr>accounts = [], found = [], roles = [], pending = accountsOf client\<rparr>)
       (st, case listAccounts client of
              Inl e \<Rightarrow> log_entry ''error'' ''listAccounts() failed: %s'' [e] h
            | Inr as \<Rightarrow> h)"
  by (cases "listAccounts client") (simp_all add: next_result_def accountsOf_def)

lemma consume_AtYield:
  assumes "forAwait client sourceId (accounts f) (found f) (roles f) (pending f) st = AtYield v f1 st1"
  shows "consume (Suc n) truncateStartUrl client sourceId ssoProfile (Suspended f) (st, h) =
           (case consume n truncateStartUrl client sourceId ssoProfile (Suspended f1) (st1, h) of
              (vs, e, st2, h2) \<Rightarrow> (v # vs, e, st2, h2))"
  using assms by (simp add: next_result_def resume_def)

lemma consume_Raised:
  assumes "forAwait client sourceId (accounts f) (found f) (roles f) (pending f) st = Raised e st1"
  shows "consume (Suc n) truncateStartUrl client sourceId ssoProfile (Suspended f) (st, h) =
           ([], Threw e, st1, h)"
  using assms by (simp add: next_result_def resume_def)

lemma consume_Exhausted:
  assumes "forAwait client sourceId (accounts f) (found f) (roles f) (pending f) st = Exhausted f1 st1"
  shows "consume (Suc n) truncateStartUrl client sourceId ssoProfile (Suspended f) (st, h) =
           (case cleanup sourceId (found f1) (listProfiles st1) st1 of
              (None, st2) \<Rightarrow>
                ([], Drained, st2, zeroResultDiagnostic truncateStartUrl ssoProfile (accounts f1) (found f1) h)
            | (Some e, st2) \<Rightarrow>
                ([], Threw e, st2, zeroResultDiagnostic truncateStartUrl ssoProfile (accounts f1) (found f1) h))"
  using assms by (simp add: next_result_def resume_def Let_def split: prod.splits option.splits)

text \<open>What a drained run has done, from any position of the stream.\<close>

lemma consume_drained:
  assumes "consume n truncateStartUrl client sourceId ssoProfile (Suspended f) (st, h) = (ys, Drained, st', h')"
  shows "listed client (pending f)
       \<and> ys = newLinked sourceId (remaining client (roles f) (pending f)) st
       \<and> cleanup sourceId
           (set_adds (map (linkedId sourceId) (remaining client (roles f) (pending f))) (found f))
           (listProfiles (addLinked sourceId (remaining client (roles f) (pending f)) st))
           (addLinked sourceId (remaining client (roles f) (pending f)) st) = (None, st')
       \<and> h' = zeroResultDiagnostic truncateStartUrl ssoProfile
                (set_adds (pending f) (accounts f))
                (set_adds (map (linkedId sourceId) (remaining client (roles f) (pending f))) (found f)) h"
  using assms
proof (induction n arbitrary: f st ys)
  case 0
  then show ?case by simp
next
  case (Suc n)
  show ?case
  proof (cases "forAwait client sourceId (accounts f) (found f) (roles f) (pending f) st")
    case (AtYield v f1 st1)
    obtain vs e st2 h2 where
      c: "consume n truncateStartUrl client sourceId ssoProfile (Suspended f1) (st1, h) = (vs, e, st2, h2)"
      by (cases "consume n truncateStartUrl client sourceId ssoProfile (Suspended f1) (st1, h)") auto
    have r: "ys = v # vs" "e = Drained" "st2 = st'" "h2 = h'"
      using Suc.prems c by (simp_all add: consume_AtYield [OF AtYield] del: consume.simps)
    note ih = Suc.IH [OF c [unfolded r]]
    note y = forAwait_AtYield [OF AtYield]
    show ?thesis using ih y r(1) by simp
  next
    case (Exhausted f1 st1)
    note x = forAwait_Exhausted [OF Exhausted]
    obtain eo st2 where cl: "cleanup sourceId (found f1) (listProfiles st1) st1 = (eo, st2)"
      by (cases "cleanup sourceId (found f1) (listProfiles st1) st1")
    have r: "eo = None" "ys = []" "st2 = st'"
      "h' = zeroResultDiagnostic truncateStartUrl ssoProfile (accounts f1) (found f1) h"
      using Suc.prems cl
      by (auto simp: consume_Exhausted [OF Exhausted] simp del: consume.simps split: option.splits)
    show ?thesis using x cl r by simp
  next
    case (Raised e st1)
    then show ?thesis
      using Suc.prems by (simp add: consume_Raised [OF Raised] del: consume.simps)
  qed
qed


text \<open>
  When no listing fails, a consumer that asks for more items than the stream still
  holds drains the generator.
\<close>

lemma consume_drains:
  assumes "listed client (pending f)"
    and "distinct (map fst (profiles st))"
    and "length (remaining client (roles f) (pending f)) < n"
  shows "\<exists>ys st' h'.
           consume n truncateStartUrl client sourceId ssoProfile (Suspended f) (st, h) = (ys, Drained, st', h')"
  using assms
proof (induction n arbitrary: f st)
  case 0
  then show ?case by simp
next
  case (Suc n)
  show ?case
  proof (cases "forAwait client sourceId (accounts f) (found f) (roles f) (pending f) st")
    case (AtYield v f1 st1)
    note y = forAwait_AtYield [OF AtYield]
    obtain i q where a: "map_of (profiles st) i = None" "st1 = snd (addProfile i q st)"
      using y by blast
    have d1: "distinct (map fst (profiles st1))"
      using Suc.prems(2) by (simp add: a(2) keys_addProfile)
    have l1: "listed client (pending f1)" using y Suc.prems(1) by simp
    have n1: "length (remaining client (roles f1) (pending f1)) < n"
      using y Suc.prems(3) by simp
    obtain vs st2 h2 where
      "consume n truncateStartUrl client sourceId ssoProfile (Suspended f1) (st1, h) = (vs, Drained, st2, h2)"
      using Suc.IH [OF l1 d1 n1] by blast
    then show ?thesis
      by (simp add: consume_AtYield [OF AtYield] del: consume.simps)
  next
    case (Exhausted f1 st1)
    have "st1 = st" using forAwait_Exhausted [OF Exhausted] by simp
    then show ?thesis
      using cleanup_store [OF Suc.prems(2), of sourceId "found f1"]
      by (simp add: consume_Exhausted [OF Exhausted] del: consume.simps)
  next
    case (Raised er st1)
    then show ?thesis
      using forAwait_Raised [OF Raised] Suc.prems(1) by simp
  qed
qed

subsection \<open>Stale cleanup\<close>

lemma remaining_Start: "remaining client [] (accountsOf client) = catalog client"
  by (simp add: remaining_def catalog_def)

lemma map_of_filter_distinct:
  "distinct (map fst ps) \<Longrightarrow>
     map_of (filter P ps) k =
       (case map_of ps k of None \<Rightarrow> None | Some v \<Rightarrow> if P (k, v) then Some v else None)"
proof (induction ps)
  case Nil
  show ?case by simp
next
  case (Cons e ps)
  obtain i v where e: "e = (i, v)" by (cases e)
  have ni: "i \<notin> fst ` set ps" and d: "distinct (map fst ps)"
    using Cons.prems by (simp_all add: e)
  have none: "map_of ps i = None" using ni by (simp add: map_of_eq_None_iff)
  show ?case
  proof (cases "k = i")
    case True
    then show ?thesis using Cons.IH [OF d] none by (simp add: e)
  next
    case False
    then show ?thesis using Cons.IH [OF d] by (simp add: e)
  qed
qed

text \<open>
  The whole of a drained run from the start: the entries yielded, the store before the
  clean-up, and the final store and host.
\<close>

lemma drained_run:
  assumes d: "distinct (map fst (profiles st))"
    and run: "consume n truncateStartUrl client sourceId ssoProfile Start (st, h) = (ys, Drained, st', h')"
  shows "listed client (accountsOf client)
       \<and> ys = newLinked sourceId (catalog client) st
       \<and> st' = (addLinked sourceId (catalog client) st)
                \<lparr>profiles := filter (\<lambda>e. \<not> staleLinked sourceId
                                           (set_adds (map (linkedId sourceId) (catalog client)) []) e)
                                   (profiles (addLinked sourceId (catalog client) st))\<rparr>
       \<and> h' = zeroResultDiagnostic truncateStartUrl ssoProfile
                (set_adds (accountsOf client) [])
                (set_adds (map (linkedId sourceId) (catalog client)) [])
                (case listAccounts client of
                   Inl e \<Rightarrow> log_entry ''error'' ''listAccounts() failed: %s'' [e] h
                 | Inr as \<Rightarrow> h)"
proof -
  obtain m where n: "n = Suc m"
    using run by (cases n) simp_all
  note c = consume_drained [OF run [unfolded n consume_Start]]
  have d1: "distinct (map fst (profiles (addLinked sourceId (catalog client) st)))"
    by (rule addLinked_distinct [OF d])
  show ?thesis
    using c cleanup_store [OF d1, of sourceId "set_adds (map (linkedId sourceId) (catalog client)) []"]
    by (simp add: remaining_Start)
qed



subsection \<open>Idempotence\<close>

lemma newLinked_stored:
  "(i, p) \<in> set (newLinked sourceId infos st) \<Longrightarrow>
     map_of (profiles (addLinked sourceId infos st)) i = Some p"
proof (induction infos arbitrary: st)
  case Nil
  then show ?case by simp
next
  case (Cons x infos)
  let ?st1 = "snd (addProfile (linkedId sourceId x)
        (LinkedIamProfile (linkedName x) sourceId (roleName x) (accountId x)) st)"
  show ?case
  proof (cases "getProfile st (linkedId sourceId x) \<noteq> Undefined")
    case True
    then show ?thesis using Cons by simp
  next
    case False
    have "(i, p) = (linkedId sourceId x,
          initMetadata (LinkedIamProfile (linkedName x) sourceId (roleName x) (accountId x)))
        \<or> (i, p) \<in> set (newLinked sourceId infos ?st1)"
      using Cons.prems False by simp
    then show ?thesis
    proof
      assume "(i, p) = (linkedId sourceId x,
          initMetadata (LinkedIamProfile (linkedName x) sourceId (roleName x) (accountId x)))"
      then have "map_of (profiles ?st1) i = Some p" by (simp add: map_of_addProfile)
      then have "map_of (profiles (addLinked sourceId infos ?st1)) i = Some p"
        by (rule addLinked_mono)
      then show ?thesis using False by simp
    next
      assume "(i, p) \<in> set (newLinked sourceId infos ?st1)"
      then have "map_of (profiles (addLinked sourceId infos ?st1)) i = Some p"
        by (rule Cons.IH)
      then show ?thesis using False by simp
    qed
  qed
qed

text \<open>
  C2. On a store with one entry per id, after a drained run of the discovery over
  session \<open>S\<close>:
  every entry yielded is for a pair of the catalog, under the id
  \<open>sso:<S>#<roleName>-<accountId>\<close>, was not stored before and is stored now, and no id
  is yielded twice; the id of every pair of the catalog is stored; a pair whose id was
  stored before the run keeps its record and is not yielded; the store still has one
  entry per id; and a second run over the same catalog, drained by any consumer, yields
  nothing and leaves the store as it is: nothing is created and nothing is deleted.
\<close>

theorem discovery_idempotent:
  assumes d: "distinct (map fst (profiles st))"
    and run: "consume n truncateStartUrl client S ssoProfile Start (st, h) = (ys, Drained, st1, h1)"
  shows "(\<forall>(i, p) \<in> set ys.
            \<exists>info \<in> set (catalog client).
              i = ''sso:'' @ S @ ''#'' @ roleName info @ ''-'' @ accountId info
              \<and> p = initMetadata (LinkedIamProfile (roleName info @ ''-'' @ accountId info) S
                                   (roleName info) (accountId info))
              \<and> getProfile st i = Undefined \<and> getProfile st1 i = Own p)
       \<and> distinct (map fst ys)
       \<and> (\<forall>info \<in> set (catalog client).
            \<exists>p. getProfile st1 (''sso:'' @ S @ ''#'' @ roleName info @ ''-'' @ accountId info) = Own p)
       \<and> (\<forall>info \<in> set (catalog client). \<forall>p.
            getProfile st (linkedId S info) = Own p \<longrightarrow>
              getProfile st1 (linkedId S info) = Own p \<and> linkedId S info \<notin> fst ` set ys)
       \<and> distinct (map fst (profiles st1))
       \<and> (\<forall>m h2. \<exists>h3.
            consume (Suc m) truncateStartUrl client S ssoProfile Start (st1, h2) = ([], Drained, st1, h3))"
proof -
  let ?F = "set_adds (map (linkedId S) (catalog client)) []"
  let ?pre = "addLinked S (catalog client) st"
  note r = drained_run [OF d run]
  have ys: "ys = newLinked S (catalog client) st" using r by simp
  have st1: "st1 = ?pre\<lparr>profiles := filter (\<lambda>e. \<not> staleLinked S ?F e) (profiles ?pre)\<rparr>"
    using r by simp
  have l: "listed client (accountsOf client)" using r by simp
  have dpre: "distinct (map fst (profiles ?pre))" by (rule addLinked_distinct [OF d])
  have m1: "\<And>k. map_of (profiles st1) k =
      (case map_of (profiles ?pre) k of
         None \<Rightarrow> None
       | Some v \<Rightarrow> if \<not> staleLinked S ?F (k, v) then Some v else None)"
    by (simp add: st1 map_of_filter_distinct [OF dpre])
  have found: "\<And>info v. info \<in> set (catalog client) \<Longrightarrow> \<not> staleLinked S ?F (linkedId S info, v)"
  proof
    fix info v
    assume i: "info \<in> set (catalog client)" and s: "staleLinked S ?F (linkedId S info, v)"
    have "linkedId S info \<notin> set ?F" using staleLinked_iam [OF s] by simp
    then show False using i by (simp add: set_set_adds)
  qed
  have kept: "\<And>info v. info \<in> set (catalog client) \<Longrightarrow>
      map_of (profiles ?pre) (linkedId S info) = Some v \<Longrightarrow>
      map_of (profiles st1) (linkedId S info) = Some v"
    using found by (simp add: m1)
  have c1: "\<forall>(i, p) \<in> set ys.
            \<exists>info \<in> set (catalog client).
              i = ''sso:'' @ S @ ''#'' @ roleName info @ ''-'' @ accountId info
              \<and> p = initMetadata (LinkedIamProfile (roleName info @ ''-'' @ accountId info) S
                                   (roleName info) (accountId info))
              \<and> getProfile st i = Undefined \<and> getProfile st1 i = Own p"
  proof (clarify)
    fix i p assume m: "(i, p) \<in> set ys"
    then obtain info where info: "info \<in> set (catalog client)" "i = linkedId S info"
      "p = initMetadata (LinkedIamProfile (linkedName info) S (roleName info) (accountId info))"
      and none: "map_of (profiles st) i = None"
      using newLinked_entry [of i p S "catalog client" st] by (auto simp: ys)
    have "map_of (profiles ?pre) i = Some p"
      using m newLinked_stored by (simp add: ys)
    then have "getProfile st1 i = Own p"
      using kept [OF info(1)] by (simp add: info(2) getProfile_Own)
    moreover have "getProfile st i = Undefined"
      using none getProfile_linkedId [of st S info] by (simp add: info(2))
    ultimately show "\<exists>info \<in> set (catalog client).
              i = ''sso:'' @ S @ ''#'' @ roleName info @ ''-'' @ accountId info
              \<and> p = initMetadata (LinkedIamProfile (roleName info @ ''-'' @ accountId info) S
                                   (roleName info) (accountId info))
              \<and> getProfile st i = Undefined \<and> getProfile st1 i = Own p"
      using info by (auto simp: linkedId_def linkedName_def)
  qed
  have c2: "distinct (map fst ys)" by (simp add: ys newLinked_distinct)
  have present: "\<And>info. info \<in> set (catalog client) \<Longrightarrow> map_of (profiles st1) (linkedId S info) \<noteq> None"
  proof -
    fix info assume i: "info \<in> set (catalog client)"
    then obtain v where "map_of (profiles ?pre) (linkedId S info) = Some v"
      using addLinked_present [of info "catalog client" S st] by auto
    then show "map_of (profiles st1) (linkedId S info) \<noteq> None"
      using kept [OF i] by simp
  qed
  have c3: "\<forall>info \<in> set (catalog client).
            \<exists>p. getProfile st1 (''sso:'' @ S @ ''#'' @ roleName info @ ''-'' @ accountId info) = Own p"
  proof
    fix info assume "info \<in> set (catalog client)"
    then obtain v where "map_of (profiles st1) (linkedId S info) = Some v"
      using present by auto
    then show "\<exists>p. getProfile st1 (''sso:'' @ S @ ''#'' @ roleName info @ ''-'' @ accountId info) = Own p"
      by (auto simp: getProfile_Own linkedId_def linkedName_def)
  qed
  have c4: "\<forall>info \<in> set (catalog client). \<forall>p.
            getProfile st (linkedId S info) = Own p \<longrightarrow>
              getProfile st1 (linkedId S info) = Own p \<and> linkedId S info \<notin> fst ` set ys"
  proof (intro ballI allI impI)
    fix info p assume i: "info \<in> set (catalog client)" and g: "getProfile st (linkedId S info) = Own p"
    have own: "map_of (profiles st) (linkedId S info) = Some p" using g by (simp add: getProfile_Own)
    then have "map_of (profiles ?pre) (linkedId S info) = Some p" by (rule addLinked_mono)
    then have a: "getProfile st1 (linkedId S info) = Own p"
      using kept [OF i] by (simp add: getProfile_Own)
    have b: "linkedId S info \<notin> fst ` set ys"
    proof
      assume "linkedId S info \<in> fst ` set ys"
      then obtain q where "(linkedId S info, q) \<in> set (newLinked S (catalog client) st)"
        by (auto simp: ys)
      then have "map_of (profiles st) (linkedId S info) = None"
        using newLinked_entry by blast
      then show False using own by simp
    qed
    show "getProfile st1 (linkedId S info) = Own p \<and> linkedId S info \<notin> fst ` set ys"
      using a b by simp
  qed
  have c5: "distinct (map fst (profiles st1))"
    using dpre by (simp add: st1 distinct_map_filter)
  have c6: "\<forall>m h2. \<exists>h3.
            consume (Suc m) truncateStartUrl client S ssoProfile Start (st1, h2) = ([], Drained, st1, h3)"
  proof (intro allI)
    fix m h2
    let ?f0 = "\<lparr>accounts = [], found = [], roles = [], pending = accountsOf client\<rparr>"
    have all: "\<forall>info \<in> set (remaining client [] (accountsOf client)).
        map_of (profiles st1) (linkedId S info) \<noteq> None"
      using present by (simp add: remaining_Start)
    have fa: "forAwait client S (accounts ?f0) (found ?f0) (roles ?f0) (pending ?f0) st1 =
        Exhausted \<lparr>accounts = set_adds (accountsOf client) [], found = ?F, roles = [], pending = []\<rparr> st1"
      using forAwait_present [OF l all, of "[]" "[]"] by (simp add: remaining_Start)
    have "\<forall>e \<in> set (listProfiles st1). \<not> staleLinked S ?F e"
      by (simp add: listProfiles_def getData_def set_entries st1)
    then have cl: "cleanup S ?F (listProfiles st1) st1 = (None, st1)"
      by (rule cleanup_none_stale)
    show "\<exists>h3. consume (Suc m) truncateStartUrl client S ssoProfile Start (st1, h2) = ([], Drained, st1, h3)"
      unfolding consume_Start consume_Exhausted [OF fa] by (simp add: cl)
  qed
  show ?thesis using c1 c2 c3 c4 c5 c6 by blast
qed

theorem discovery_idempotent_witness:
  "fst (consume (Suc (Suc 0)) (\<lambda>u. u) catalogClient ''sso:1'' exampleSso Start (staleStore, quietHost)) =
     [(''sso:sso:1#Admin-111'', initMetadata (LinkedIamProfile ''Admin-111'' ''sso:1'' ''Admin'' ''111''))]
   \<and> fst (snd (consume (Suc (Suc 0)) (\<lambda>u. u) catalogClient ''sso:1'' exampleSso Start (staleStore, quietHost)))
       = Drained
   \<and> (\<exists>h3. consume (Suc 0) (\<lambda>u. u) catalogClient ''sso:1'' exampleSso Start
         (fst (snd (snd (consume (Suc (Suc 0)) (\<lambda>u. u) catalogClient ''sso:1'' exampleSso Start
                             (staleStore, quietHost)))), quietHost) =
       ([], Drained,
        fst (snd (snd (consume (Suc (Suc 0)) (\<lambda>u. u) catalogClient ''sso:1'' exampleSso Start
                             (staleStore, quietHost)))), h3))"
proof -
  let ?R = "consume (Suc (Suc 0)) (\<lambda>u. u) catalogClient ''sso:1'' exampleSso Start (staleStore, quietHost)"
  have d: "distinct (map fst (profiles staleStore))"
    by (simp add: staleStore_def)
  have "listed catalogClient (pending \<lparr>accounts = [], found = [], roles = [],
      pending = accountsOf catalogClient\<rparr>)"
    by (simp add: listed_def accountsOf_def catalogClient_def)
  moreover have "length (remaining catalogClient
      (roles \<lparr>accounts = [], found = [], roles = [], pending = accountsOf catalogClient\<rparr>)
      (pending \<lparr>accounts = [], found = [], roles = [], pending = accountsOf catalogClient\<rparr>)) < Suc (Suc 0)"
    by (simp add: remaining_def accountsOf_def rolesOf_def catalogClient_def)
  ultimately obtain ys st' h' where
    "consume (Suc (Suc 0)) (\<lambda>u. u) catalogClient ''sso:1'' exampleSso
       (Suspended \<lparr>accounts = [], found = [], roles = [], pending = accountsOf catalogClient\<rparr>)
       (staleStore, case listAccounts catalogClient of
            Inl e \<Rightarrow> log_entry ''error'' ''listAccounts() failed: %s'' [e] quietHost
          | Inr as \<Rightarrow> quietHost) = (ys, Drained, st', h')"
    using consume_drains [OF _ d] by blast
  then have run: "?R = (ys, Drained, st', h')"
    by (simp only: consume_Start)
  note T = discovery_idempotent [OF d run]
  have y: "ys = [(''sso:sso:1#Admin-111'', initMetadata (LinkedIamProfile ''Admin-111'' ''sso:1'' ''Admin'' ''111''))]"
    using drained_run [OF d run]
    by (simp add: catalog_def accountsOf_def rolesOf_def catalogClient_def linkedId_def linkedName_def
        staleStore_def getProfile_def getData_def property_def objectPrototypeKeys_def)
  have again: "\<exists>h3. consume (Suc 0) (\<lambda>u. u) catalogClient ''sso:1'' exampleSso Start (st', quietHost) =
      ([], Drained, st', h3)"
    using T by blast
  show ?thesis using y again by (simp add: run del: consume.simps)
qed

subsection \<open>Zero-result diagnostic\<close>

lemma onlyAccountAccess_iff:
  "(case read (scopes ssoProfile) of
      None \<Rightarrow> False
    | Some ss \<Rightarrow> list_ex (\<lambda>s. s \<notin> set scopesSsoAccountAccess) ss) = (\<not> onlyAccountAccess ssoProfile)"
  by (cases "read (scopes ssoProfile)") (simp_all add: onlyAccountAccess_def list_all_iff list_ex_iff)

lemma zeroResultDiagnostic_eq:
  "zeroResultDiagnostic truncateStartUrl ssoProfile accs fnd h =
     (if onlyAccountAccess ssoProfile \<and> (accs = [] \<or> fnd = [])
      then warnOnce (fst (noRolesWarning (truncateStartUrl (startUrl ssoProfile))))
             (snd (noRolesWarning (truncateStartUrl (startUrl ssoProfile))))
             (log_entry ''warn''
                (if accs = [] then ''auth: SSO org (%s) returned no accounts''
                 else ''auth: SSO org (%s) returned no roles for account: %s'')
                (if accs = [] then [truncateStartUrl (startUrl ssoProfile)]
                 else [truncateStartUrl (startUrl ssoProfile), join '','' accs]) h)
      else h)"
  by (auto simp: zeroResultDiagnostic_def onlyAccountAccess_iff Let_def noRolesWarning_def)

lemma consume_not_drained_host:
  assumes "consume n truncateStartUrl client sourceId ssoProfile (Suspended f) (st, h) = (ys, e, st', h')"
    and "e \<noteq> Drained"
    and "distinct (map fst (profiles st))"
  shows "h' = h"
  using assms
proof (induction n arbitrary: f st ys)
  case 0
  then show ?case by simp
next
  case (Suc n)
  show ?case
  proof (cases "forAwait client sourceId (accounts f) (found f) (roles f) (pending f) st")
    case (AtYield v f1 st1)
    obtain vs e2 st2 h2 where
      c: "consume n truncateStartUrl client sourceId ssoProfile (Suspended f1) (st1, h) = (vs, e2, st2, h2)"
      by (cases "consume n truncateStartUrl client sourceId ssoProfile (Suspended f1) (st1, h)") auto
    have r: "e2 = e" "st2 = st'" "h2 = h'"
      using Suc.prems(1) c by (simp_all add: consume_AtYield [OF AtYield] del: consume.simps)
    obtain i q where a: "map_of (profiles st) i = None" "st1 = snd (addProfile i q st)"
      using forAwait_AtYield [OF AtYield] by blast
    have d1: "distinct (map fst (profiles st1))"
      using Suc.prems(3) by (simp add: a(2) keys_addProfile)
    show ?thesis
      by (rule Suc.IH [OF c [unfolded r] Suc.prems(2) d1])
  next
    case (Exhausted f1 st1)
    have "st1 = st" using forAwait_Exhausted [OF Exhausted] by simp
    then have "e = Drained"
      using Suc.prems(1) cleanup_store [OF Suc.prems(3), of sourceId "found f1"]
      by (simp add: consume_Exhausted [OF Exhausted] del: consume.simps)
    then show ?thesis using Suc.prems(2) by simp
  next
    case (Raised er st1)
    then show ?thesis
      using Suc.prems(1) by (simp add: consume_Raised [OF Raised] del: consume.simps)
  qed
qed

text \<open>
  C9, amended. On a store with one entry per id, a drained run of the discovery logs
  a warning exactly when the scopes of the profile hold nothing beyond
  \<open>sso:account:access\<close> and the catalog has no accounts or no roles; the logged entry
  says which of the two (no accounts, or no roles for the accounts seen); the same
  message for the user is then handed to \<open>warnOnce\<close>, which shows it unless it is the
  message it was handed last. A run that is not drained shows nothing.
\<close>

theorem zero_result_diagnostic:
  assumes d: "distinct (map fst (profiles st))"
    and run: "consume n truncateStartUrl client S ssoProfile Start (st, h) = (ys, e, st', h')"
  shows "(e = Drained \<longrightarrow>
            shown h' = shown h @
              (if zeroResult ssoProfile client
                  \<and> lastWarned h \<noteq> Some (noRolesWarning (truncateStartUrl (startUrl ssoProfile)))
               then [noRolesWarning (truncateStartUrl (startUrl ssoProfile))] else [])
          \<and> lastWarned h' =
              (if zeroResult ssoProfile client
               then Some (noRolesWarning (truncateStartUrl (startUrl ssoProfile))) else lastWarned h)
          \<and> logged h' = logged h @
              (case listAccounts client of
                 Inl msg \<Rightarrow> [(''error'', ''listAccounts() failed: %s'', [msg])]
               | Inr as \<Rightarrow> []) @
              (if zeroResult ssoProfile client
               then [if accountsOf client = []
                     then (''warn'', ''auth: SSO org (%s) returned no accounts'',
                           [truncateStartUrl (startUrl ssoProfile)])
                     else (''warn'', ''auth: SSO org (%s) returned no roles for account: %s'',
                           [truncateStartUrl (startUrl ssoProfile),
                            join '','' (set_adds (accountsOf client) [])])]
               else []))
       \<and> (e \<noteq> Drained \<longrightarrow> shown h' = shown h \<and> lastWarned h' = lastWarned h)"
proof (intro conjI impI)
  assume e: "e = Drained"
  let ?h0 = "case listAccounts client of
               Inl msg \<Rightarrow> log_entry ''error'' ''listAccounts() failed: %s'' [msg] h
             | Inr as \<Rightarrow> h"
  have h': "h' = zeroResultDiagnostic truncateStartUrl ssoProfile
                (set_adds (accountsOf client) [])
                (set_adds (map (linkedId S) (catalog client)) []) ?h0"
    using drained_run [OF d run [unfolded e]] by simp
  have z: "(set_adds (map (linkedId S) (catalog client)) [] = []) = (catalog client = [])"
    by (simp add: set_adds_eq_Nil)
  have a: "(set_adds (accountsOf client) [] = []) = (accountsOf client = [])"
    by (simp add: set_adds_eq_Nil)
  have s0: "shown ?h0 = shown h" "lastWarned ?h0 = lastWarned h"
    "logged ?h0 = logged h @ (case listAccounts client of
                 Inl msg \<Rightarrow> [(''error'', ''listAccounts() failed: %s'', [msg])]
               | Inr as \<Rightarrow> [])"
    by (simp_all add: log_entry_def split: sum.splits)
  show "shown h' = shown h @
              (if zeroResult ssoProfile client
                  \<and> lastWarned h \<noteq> Some (noRolesWarning (truncateStartUrl (startUrl ssoProfile)))
               then [noRolesWarning (truncateStartUrl (startUrl ssoProfile))] else [])"
    unfolding h' zeroResultDiagnostic_eq z a
    using s0 by (simp add: zeroResult_def warnOnce_def log_entry_def)
  show "lastWarned h' =
              (if zeroResult ssoProfile client
               then Some (noRolesWarning (truncateStartUrl (startUrl ssoProfile))) else lastWarned h)"
    unfolding h' zeroResultDiagnostic_eq z a
    using s0 by (simp add: zeroResult_def warnOnce_def log_entry_def)
  show "logged h' = logged h @
              (case listAccounts client of
                 Inl msg \<Rightarrow> [(''error'', ''listAccounts() failed: %s'', [msg])]
               | Inr as \<Rightarrow> []) @
              (if zeroResult ssoProfile client
               then [if accountsOf client = []
                     then (''warn'', ''auth: SSO org (%s) returned no accounts'',
                           [truncateStartUrl (startUrl ssoProfile)])
                     else (''warn'', ''auth: SSO org (%s) returned no roles for account: %s'',
                           [truncateStartUrl (startUrl ssoProfile),
                            join '','' (set_adds (accountsOf client) [])])]
               else [])"
    unfolding h' zeroResultDiagnostic_eq z a
    using s0 by (simp add: zeroResult_def warnOnce_def log_entry_def)
next
  assume e: "e \<noteq> Drained"
  show "shown h' = shown h"
  proof (cases n)
    case 0
    then show ?thesis using run by simp
  next
    case (Suc m)
    show ?thesis
      using consume_not_drained_host [OF run [unfolded Suc consume_Start] e d]
      by (simp add: log_entry_def split: sum.splits)
  qed
  show "lastWarned h' = lastWarned h"
  proof (cases n)
    case 0
    then show ?thesis using run by simp
  next
    case (Suc m)
    show ?thesis
      using consume_not_drained_host [OF run [unfolded Suc consume_Start] e d]
      by (simp add: log_entry_def split: sum.splits)
  qed
qed

lemma zeroRun_eq:
  "zeroRun url h =
     warnOnce (fst (noRolesWarning url)) (snd (noRolesWarning url))
       (log_entry ''warn'' ''auth: SSO org (%s) returned no accounts'' [url] h)"
  by (simp add: zeroRun_def next_result_def resume_def noAccountsClient_def emptyStore_def
      listProfiles_def getData_def entries_def zeroResultDiagnostic_eq onlyAccountAccess_def)

theorem zero_result_diagnostic_witness:
  "fst (snd (consume (Suc 0) (\<lambda>u. u) noAccountsClient ''sso:1'' exampleSso Start (emptyStore, quietHost)))
     = Drained
   \<and> shown (snd (snd (snd (consume (Suc 0) (\<lambda>u. u) noAccountsClient ''sso:1'' exampleSso Start
                              (emptyStore, quietHost))))) = [noRolesWarning ''https://x'']
   \<and> logged (snd (snd (snd (consume (Suc 0) (\<lambda>u. u) noAccountsClient ''sso:1'' exampleSso Start
                              (emptyStore, quietHost))))) =
       [(''warn'', ''auth: SSO org (%s) returned no accounts'', [''https://x''])]"
proof -
  let ?R = "consume (Suc 0) (\<lambda>u. u) noAccountsClient ''sso:1'' exampleSso Start (emptyStore, quietHost)"
  have d: "distinct (map fst (profiles emptyStore))" by (simp add: emptyStore_def)
  have e: "fst (snd ?R) = Drained"
    by (simp add: next_result_def resume_def noAccountsClient_def emptyStore_def
        listProfiles_def getData_def entries_def Let_def)
  have r: "?R = (fst ?R, fst (snd ?R), fst (snd (snd ?R)), snd (snd (snd ?R)))" by simp
  have z: "zeroResult exampleSso noAccountsClient"
    by (simp add: zeroResult_def onlyAccountAccess_def exampleSso_def accountsOf_def noAccountsClient_def)
  have q: "shown quietHost = []" "lastWarned quietHost = None" "logged quietHost = []"
    by (simp_all add: quietHost_def)
  have l: "listAccounts noAccountsClient = Inr []" "accountsOf noAccountsClient = []"
    by (simp_all add: noAccountsClient_def accountsOf_def)
  have u: "startUrl exampleSso = ''https://x''" by (simp add: exampleSso_def)
  note T = zero_result_diagnostic [OF d r, THEN conjunct1, rule_format, OF e]
  show ?thesis
    using T e by (simp add: z q l u del: consume.simps)
qed

text \<open>
  Three drained runs over a catalog without accounts, for the start URLs \<open>a\<close>, \<open>b\<close> and
  \<open>a\<close> again: the message for \<open>a\<close> is shown twice.
\<close>

theorem zero_result_diagnostic_counterexample:
  "shown (zeroRun ''https://a'' (zeroRun ''https://b'' (zeroRun ''https://a'' quietHost))) =
     [noRolesWarning ''https://a'', noRolesWarning ''https://b'', noRolesWarning ''https://a'']"
  by (simp add: zeroRun_eq warnOnce_def log_entry_def quietHost_def noRolesWarning_def)

end
